theory Spec2Isabelle
  imports Main "HOL-Library.Word"
begin

unbundle bit_operations_syntax

section \<open>Direction transformations (direction\_func.h)\<close>

text \<open>
  The enumerations \<^verbatim>\<open>Direction\<close>, \<^verbatim>\<open>DirDiff\<close> and \<^verbatim>\<open>DirTransformation\<close> are declared in
  direction\_type.h, which is not among the sources. Their values are fixed by the code
  that uses them: directions count clockwise from \<^verbatim>\<open>DIR_N = 0\<close> with \<^verbatim>\<open>DIR_END = 8\<close>
  (\<^verbatim>\<open>ReverseDir\<close> is \<^verbatim>\<open>4 ^ d\<close>, \<^verbatim>\<open>ChangeDir\<close> works modulo 8), and a transformation is
  the bit pattern \<^verbatim>\<open>00000irr\<close> described in \<^verbatim>\<open>CombineDirTransform\<close>. Enumeration values
  are integers here, as they are after C++'s integral promotion; a cast back to
  \<^verbatim>\<open>Direction\<close> (an enumeration stored in a byte) keeps the low eight bits.
\<close>

datatype error = AssertionFailed | NullPointerDereference

type_synonym Direction = int
type_synonym DirDiff = int
type_synonym DirTransformation = int

definition DIR_N :: Direction where "DIR_N = 0"
definition DIR_NE :: Direction where "DIR_NE = 1"
definition DIR_E :: Direction where "DIR_E = 2"
definition DIR_SE :: Direction where "DIR_SE = 3"
definition DIR_S :: Direction where "DIR_S = 4"
definition DIR_SW :: Direction where "DIR_SW = 5"
definition DIR_W :: Direction where "DIR_W = 6"
definition DIR_NW :: Direction where "DIR_NW = 7"
definition DIR_END :: Direction where "DIR_END = 8"

definition DTR_BEGIN :: DirTransformation where "DTR_BEGIN = 0"
definition DTR_IDENTITY :: DirTransformation where "DTR_IDENTITY = 0"
definition DTR_ROTATE_90_R :: DirTransformation where "DTR_ROTATE_90_R = 1"
definition DTR_ROTATE_180 :: DirTransformation where "DTR_ROTATE_180 = 2"
definition DTR_ROTATE_90_L :: DirTransformation where "DTR_ROTATE_90_L = 3"
definition DTR_REFLECT_NE_SW :: DirTransformation where "DTR_REFLECT_NE_SW = 4"
definition DTR_REFLECT_W_E :: DirTransformation where "DTR_REFLECT_W_E = 5"
definition DTR_REFLECT_NW_SE :: DirTransformation where "DTR_REFLECT_NW_SE = 6"
definition DTR_REFLECT_N_S :: DirTransformation where "DTR_REFLECT_N_S = 7"
definition DTR_END :: DirTransformation where "DTR_END = 8"
definition DTR_ROTATION_MASK :: int where "DTR_ROTATION_MASK = 3"
definition DTR_REFLECTION_BIT :: int where "DTR_REFLECTION_BIT = 4"

text \<open>The cast \<^verbatim>\<open>(uint)e\<close> of an \<^verbatim>\<open>int\<close> expression, and the cast to the byte-sized \<^verbatim>\<open>Direction\<close>.\<close>

definition to_uint :: "int \<Rightarrow> int" where
  "to_uint v = v mod 2 ^ 32"

definition to_Direction :: "int \<Rightarrow> Direction" where
  "to_Direction v = v mod 2 ^ 8"

definition IsValidDirection :: "Direction \<Rightarrow> bool" where
  "IsValidDirection d = (d < DIR_END)"

text \<open>
  \<^verbatim>\<open>IsInsideMM\<close> comes from core/math\_func.hpp, which is not among the sources: it tests
  \<^verbatim>\<open>min <= x < max\<close>.
\<close>

definition IsInsideMM :: "int \<Rightarrow> int \<Rightarrow> int \<Rightarrow> bool" where
  "IsInsideMM x lo hi = (lo \<le> x \<and> x < hi)"

definition IsValidDirTransform :: "DirTransformation \<Rightarrow> bool" where
  "IsValidDirTransform transformation = IsInsideMM transformation DTR_BEGIN DTR_END"

text \<open>
  \<^verbatim>\<open>ChangeDir\<close> starts with \<^verbatim>\<open>assert(IsValidDirection(d))\<close>. The flag \<open>with_assert\<close> says
  whether the build keeps assertions; a failed assertion is the error \<open>AssertionFailed\<close>.
\<close>

definition ChangeDir :: "bool \<Rightarrow> Direction \<Rightarrow> DirDiff \<Rightarrow> error + Direction" where
  "ChangeDir with_assert d delta =
     (if with_assert \<and> \<not> IsValidDirection d then Inl AssertionFailed
      else Inr (to_Direction (to_uint (d + delta) mod 8)))"

definition CombineDirTransform :: "DirTransformation \<Rightarrow> DirTransformation \<Rightarrow> DirTransformation" where
  "CombineDirTransform a b =
     (((a XOR b) AND DTR_REFLECTION_BIT) OR
      ((if b AND DTR_REFLECTION_BIT \<noteq> 0 then b - a else b + a) AND DTR_ROTATION_MASK))"

definition InvertDirTransform :: "DirTransformation \<Rightarrow> DirTransformation" where
  "InvertDirTransform transformation =
     (if transformation AND DTR_REFLECTION_BIT \<noteq> 0 then transformation
      else (- transformation) AND DTR_ROTATION_MASK)"

definition TransformDir :: "bool \<Rightarrow> Direction \<Rightarrow> DirTransformation \<Rightarrow> error + Direction" where
  "TransformDir with_assert direction transformation =
     (let direction' =
        (if transformation AND DTR_REFLECTION_BIT \<noteq> 0
         then to_Direction (2 * DIR_NE - direction) else direction)
      in ChangeDir with_assert direction' (2 * transformation))"

text \<open>Sequencing of two fallible steps: the second runs on the value of the first.\<close>

definition and_then :: "error + 'a \<Rightarrow> ('a \<Rightarrow> error + 'b) \<Rightarrow> error + 'b" where
  "and_then r f = (case r of Inl e \<Rightarrow> Inl e | Inr v \<Rightarrow> f v)"


section \<open>Command results (command\_type.h, strings)\<close>

text \<open>
  command\_type.h and the generated string table are not among the sources. A
  \<^verbatim>\<open>StringID\<close> is one of the messages named in terraform\_cmd.cpp, \<^verbatim>\<open>STR_NULL\<close>,
  \<^verbatim>\<open>INVALID_STRING_ID\<close>, or some other message (\<open>STR_OTHER\<close>) that a collaborator may
  return. A \<^verbatim>\<open>CommandCost\<close> carries a cost, a message and a success flag; \<^verbatim>\<open>Money\<close> is an
  integer.
\<close>

datatype StringID =
    STR_NULL
  | INVALID_STRING_ID
  | STR_ERROR_ALREADY_AT_SEA_LEVEL
  | STR_ERROR_TOO_HIGH
  | STR_ERROR_TOO_CLOSE_TO_EDGE_OF_MAP
  | STR_ERROR_MUST_DEMOLISH_BRIDGE_FIRST
  | STR_ERROR_BRIDGE_TOO_HIGH_AFTER_LOWER_LAND
  | STR_ERROR_EXCAVATION_WOULD_DAMAGE
  | STR_ERROR_TERRAFORM_LIMIT_REACHED
  | STR_ERROR_ALREADY_LEVELLED
  | STR_OTHER nat

type_synonym Money = int

record CommandCost =
  GetCost :: Money
  message :: StringID
  success :: bool

definition CommandCost_ok :: "Money \<Rightarrow> CommandCost" where
  "CommandCost_ok cst = \<lparr>GetCost = cst, message = INVALID_STRING_ID, success = True\<rparr>"

definition return_cmd_error :: "StringID \<Rightarrow> CommandCost" where
  "return_cmd_error msg = \<lparr>GetCost = 0, message = msg, success = False\<rparr>"

definition CMD_ERROR :: CommandCost where
  "CMD_ERROR = return_cmd_error INVALID_STRING_ID"

definition Failed :: "CommandCost \<Rightarrow> bool" where
  "Failed c = (\<not> success c)"

definition GetErrorMessage :: "CommandCost \<Rightarrow> StringID" where
  "GetErrorMessage c = (if success c then INVALID_STRING_ID else message c)"

definition AddCost :: "CommandCost \<Rightarrow> CommandCost \<Rightarrow> CommandCost" where
  "AddCost total_cost ret =
     (let total_cost' = total_cost\<lparr>GetCost := GetCost total_cost + GetCost ret\<rparr>
      in if success total_cost' \<and> \<not> success ret
         then total_cost'\<lparr>message := message ret, success := False\<rparr> else total_cost')"

definition AddCost_Money :: "CommandCost \<Rightarrow> Money \<Rightarrow> CommandCost" where
  "AddCost_Money total_cost cst = total_cost\<lparr>GetCost := GetCost total_cost + cst\<rparr>"

text \<open>
  A \<^verbatim>\<open>DoCommandFlag\<close> value is a set of flag bits: \<^verbatim>\<open>flags | DC_AUTO\<close> inserts a bit,
  \<^verbatim>\<open>flags & ~DC_EXEC\<close> removes one, \<^verbatim>\<open>flags & DC_EXEC\<close> tests one.
\<close>

datatype DoCommandFlagBit =
  DC_EXEC | DC_AUTO | DC_ALL_TILES | DC_NO_MODIFY_TOWN_RATING | DC_FORCE_CLEAR_TILE | DC_OTHER nat

type_synonym DoCommandFlag = "DoCommandFlagBit set"

type_synonym TileIndex = int

definition INVALID_TILE :: TileIndex where
  "INVALID_TILE = 2 ^ 32 - 1"

text \<open>Slopes are bit masks of raised corners (slope\_type.h, not among the sources).\<close>

type_synonym Slope = int

definition SLOPE_FLAT :: Slope where "SLOPE_FLAT = 0"
definition SLOPE_W :: Slope where "SLOPE_W = 1"
definition SLOPE_S :: Slope where "SLOPE_S = 2"
definition SLOPE_E :: Slope where "SLOPE_E = 4"
definition SLOPE_N :: Slope where "SLOPE_N = 8"
definition SLOPE_STEEP :: Slope where "SLOPE_STEEP = 16"

text \<open>\<^verbatim>\<open>GB(x, s, n)\<close> (core/bitmath\_func.hpp): the \<open>n\<close> bits of \<open>x\<close> starting at bit \<open>s\<close>.\<close>

definition GB :: "'a::len word \<Rightarrow> nat \<Rightarrow> nat \<Rightarrow> 'a word" where
  "GB x s n = (drop_bit s x) AND mask n"

record Company =
  terraform_limit :: "32 word"

definition INT32_MAX :: int where
  "INT32_MAX = 2 ^ 31 - 1"


section \<open>Terraforming many tiles (terraform\_cmd.cpp, TerraformTiles)\<close>

text \<open>
  \<^verbatim>\<open>TerraformTiles\<close> walks a tile iterator and issues \<^verbatim>\<open>CMD_TERRAFORM_LAND\<close> commands through
  \<^verbatim>\<open>DoCommand\<close>. The iterator, the height source, \<^verbatim>\<open>TileHeight\<close> and \<^verbatim>\<open>DoCommand\<close> are
  collaborators outside this function: they are the fields of \<open>terraform_tiles_env\<close>,
  working on a game state of type \<open>'w\<close>. The iterator is the list of its remaining
  positions \<open>'i\<close> (it ends at \<^verbatim>\<open>INVALID_TILE\<close>). \<open>DoCommand\<close> returns the command's result,
  the value it leaves in \<^verbatim>\<open>_terraform_err_tile\<close>, and the new game state.
\<close>

record ('w, 'i) terraform_tiles_env =
  iter_tile :: "'i \<Rightarrow> TileIndex"
  GetTileTargetHeight :: "'w \<Rightarrow> 'i \<Rightarrow> int"
  TileHeight :: "'w \<Rightarrow> TileIndex \<Rightarrow> int"
  GetIfValid_current_company :: "'w \<Rightarrow> Company option"
  DoCommand_TERRAFORM_LAND ::
    "'w \<Rightarrow> TileIndex \<Rightarrow> Slope \<Rightarrow> int \<Rightarrow> DoCommandFlag \<Rightarrow> CommandCost \<times> TileIndex \<times> 'w"

record TerraformTilesResult =
  cost :: Money
  had_success :: bool
  last_error :: StringID

text \<open>
  The local variables and the globals \<^verbatim>\<open>TerraformTiles\<close> writes. \<open>returned_early\<close> records
  that the function left through the \<^verbatim>\<open>return result\<close> in the middle of the loop.
\<close>

record 'w terraform_tiles_state =
  result :: TerraformTilesResult
  last_err_tile :: TileIndex
  limit :: int
  available_money :: Money
  world :: 'w
  terraform_err_tile_global :: TileIndex
  additional_cash_required :: Money
  returned_early :: bool

datatype loop_exit = LoopCompleted | LoopBreak | FunctionReturn

text \<open>
  The inner loop \<^verbatim>\<open>for (int curh = TileHeight(t); curh != h; curh += (curh > h) ? -1 : 1)\<close>.
\<close>

function TerraformTiles_steps ::
  "('w, 'i) terraform_tiles_env \<Rightarrow> DoCommandFlag \<Rightarrow> TileIndex \<Rightarrow> int \<Rightarrow> int \<Rightarrow>
   'w terraform_tiles_state \<Rightarrow> loop_exit \<times> 'w terraform_tiles_state" where
  "TerraformTiles_steps env flags t h curh st =
     (if curh = h then (LoopCompleted, st)
      else
        (case DoCommand_TERRAFORM_LAND env (world st) t SLOPE_N (if curh > h then 0 else 1)
                (flags - {DC_EXEC}) of
           (ret, err_tile, w1) \<Rightarrow>
             if Failed ret then
               (LoopBreak,
                st\<lparr>result := (result st)\<lparr>last_error := GetErrorMessage ret\<rparr>,
                   last_err_tile := err_tile,
                   limit := (if GetErrorMessage ret = STR_ERROR_TERRAFORM_LIMIT_REACHED
                             then 0 else limit st),
                   world := w1,
                   terraform_err_tile_global := err_tile\<rparr>)
             else if DC_EXEC \<in> flags then
               (if available_money st - GetCost ret < 0 then
                  (FunctionReturn,
                   st\<lparr>available_money := available_money st - GetCost ret,
                      world := w1,
                      additional_cash_required := GetCost ret,
                      terraform_err_tile_global := t,
                      returned_early := True\<rparr>)
                else
                  (case DoCommand_TERRAFORM_LAND env w1 t SLOPE_N (if curh > h then 0 else 1)
                          flags of
                     (ret2, err_tile2, w2) \<Rightarrow>
                       TerraformTiles_steps env flags t h (curh + (if curh > h then -1 else 1))
                         (st\<lparr>result := (result st)\<lparr>cost := cost (result st) + GetCost ret,
                                                    had_success := True\<rparr>,
                             available_money := available_money st - GetCost ret,
                             world := w2,
                             terraform_err_tile_global := err_tile2\<rparr>)))
             else if limit st - 1 \<le> 0 then
               (LoopBreak,
                st\<lparr>result := (result st)\<lparr>had_success := True\<rparr>,
                   limit := limit st - 1,
                   world := w1,
                   terraform_err_tile_global := err_tile\<rparr>)
             else
               TerraformTiles_steps env flags t h (curh + (if curh > h then -1 else 1))
                 (st\<lparr>result := (result st)\<lparr>cost := cost (result st) + GetCost ret,
                                            had_success := True\<rparr>,
                     limit := limit st - 1,
                     world := w1,
                     terraform_err_tile_global := err_tile\<rparr>)))"
  by pat_completeness auto
termination
  by (relation "measure (\<lambda>(env, flags, t, h, curh, st). nat \<bar>h - curh\<bar>)") auto

text \<open>The outer loop \<^verbatim>\<open>for (; *iter != INVALID_TILE && limit > 0; ++(*iter))\<close>.\<close>

fun TerraformTiles_loop ::
  "('w, 'i) terraform_tiles_env \<Rightarrow> DoCommandFlag \<Rightarrow> 'i list \<Rightarrow> 'w terraform_tiles_state \<Rightarrow>
   'w terraform_tiles_state" where
  "TerraformTiles_loop env flags [] st = st"
| "TerraformTiles_loop env flags (i # iter) st =
     (if \<not> limit st > 0 then st
      else
        (case TerraformTiles_steps env flags (iter_tile env i)
                (GetTileTargetHeight env (world st) i)
                (TileHeight env (world st) (iter_tile env i)) st of
           (FunctionReturn, st') \<Rightarrow> st'
         | (_, st') \<Rightarrow> TerraformTiles_loop env flags iter st'))"

definition TerraformTiles_limit :: "Company option \<Rightarrow> int" where
  "TerraformTiles_limit c =
     (case c of None \<Rightarrow> INT32_MAX | Some co \<Rightarrow> uint (GB (terraform_limit co) 16 16))"

text \<open>
  \<^verbatim>\<open>TerraformTiles\<close>. Besides the iterator, the flags and the available money, it gets the
  game state and the current values of the two globals it may write; the returned state
  holds the result and the final values of both.
\<close>

definition TerraformTiles ::
  "('w, 'i) terraform_tiles_env \<Rightarrow> 'i list \<Rightarrow> DoCommandFlag \<Rightarrow> Money \<Rightarrow> 'w \<Rightarrow>
   TileIndex \<Rightarrow> Money \<Rightarrow> 'w terraform_tiles_state" where
  "TerraformTiles env iter flags money w err_tile0 cash0 =
     (let lim = TerraformTiles_limit (GetIfValid_current_company env w);
          st0 = \<lparr>result = \<lparr>cost = 0, had_success = False,
                            last_error = (if lim = 0 then STR_ERROR_TERRAFORM_LIMIT_REACHED
                                          else STR_NULL)\<rparr>,
                 last_err_tile = INVALID_TILE,
                 limit = lim,
                 available_money = money,
                 world = w,
                 terraform_err_tile_global = err_tile0,
                 additional_cash_required = cash0,
                 returned_early = False\<rparr>;
          st1 = TerraformTiles_loop env flags iter st0
      in if returned_early st1 then st1
         else
           (let st2 =
              (if \<not> had_success (result st1) \<and> last_error (result st1) = STR_NULL
               then st1\<lparr>result := (result st1)\<lparr>last_error := STR_ERROR_ALREADY_LEVELLED\<rparr>,
                        last_err_tile := INVALID_TILE\<rparr>
               else st1)
            in st2\<lparr>terraform_err_tile_global := last_err_tile st2\<rparr>))"


text \<open>
  A collaborator set for worked examples: every tile is at height 0 and wanted at
  height 1, there is no current company, and every terraform command succeeds at a
  cost of 10.
\<close>

definition raise_by_one_env :: "(unit, TileIndex) terraform_tiles_env" where
  "raise_by_one_env =
     \<lparr>iter_tile = (\<lambda>i. i),
      GetTileTargetHeight = (\<lambda>w i. 1),
      TileHeight = (\<lambda>w t. 0),
      GetIfValid_current_company = (\<lambda>w. None),
      DoCommand_TERRAFORM_LAND = (\<lambda>w t p1 p2 flags. (CommandCost_ok 10, INVALID_TILE, w))\<rparr>"



section \<open>The main map and tile indices (map\_func.h)\<close>

text \<open>
  A \<^verbatim>\<open>Map\<close> has a width, a height and a size (map\_type.h is not among the sources; the
  fields are the ones map\_func.h reads). Unsigned values are integers with the
  reduction modulo \<open>2 ^ 32\<close> written where the code can wrap: adding a \<^verbatim>\<open>TileIndexDiff\<close>
  to a \<^verbatim>\<open>TileIndex\<close> is \<open>tile_add\<close>.
\<close>

record Map =
  size_x :: int
  size_y :: int
  size :: int

definition tile_add :: "TileIndex \<Rightarrow> int \<Rightarrow> TileIndex" where
  "tile_add tile diff = to_uint (tile + diff)"

definition Delta :: "int \<Rightarrow> int \<Rightarrow> int" where
  "Delta a b = (if a < b then b - a else a - b)"


section \<open>Terraforming one corner and its neighbours (terraform\_cmd.cpp)\<close>

text \<open>
  What \<^verbatim>\<open>CmdTerraformLand\<close> reads but does not change: the main map and its \<^verbatim>\<open>log_x\<close>, the
  construction settings and the terraform price.
\<close>

record terraform_game =
  main_map :: Map
  MapLogX :: nat
  max_heightlevel :: int
  freeform_edges :: bool
  max_bridge_height :: int
  price_PR_TERRAFORM :: Money

definition MapSizeX :: "terraform_game \<Rightarrow> int" where
  "MapSizeX g = size_x (main_map g)"

definition MapSizeY :: "terraform_game \<Rightarrow> int" where
  "MapSizeY g = size_y (main_map g)"

definition MapSize :: "terraform_game \<Rightarrow> int" where
  "MapSize g = size (main_map g)"

definition MapMaxX :: "terraform_game \<Rightarrow> int" where
  "MapMaxX g = to_uint (MapSizeX g - 1)"

definition MapMaxY :: "terraform_game \<Rightarrow> int" where
  "MapMaxY g = to_uint (MapSizeY g - 1)"

definition TileX :: "terraform_game \<Rightarrow> TileIndex \<Rightarrow> int" where
  "TileX g tile = tile mod MapSizeX g"

definition TileY :: "terraform_game \<Rightarrow> TileIndex \<Rightarrow> int" where
  "TileY g tile = tile div MapSizeX g"

definition TileXY :: "terraform_game \<Rightarrow> int \<Rightarrow> int \<Rightarrow> TileIndex" where
  "TileXY g x y = to_uint (to_uint (y * 2 ^ MapLogX g) + x)"

definition TileDiffXY :: "terraform_game \<Rightarrow> int \<Rightarrow> int \<Rightarrow> int" where
  "TileDiffXY g x y = y * MapSizeX g + x"

definition ToTileIndexDiff :: "terraform_game \<Rightarrow> int \<times> int \<Rightarrow> int" where
  "ToTileIndexDiff g tidc = snd tidc * 2 ^ MapLogX g + fst tidc"

text \<open>
  The \<^verbatim>\<open>TerraformerState\<close>: the \<^verbatim>\<open>std::set\<close> of dirty tiles is a sorted list without
  duplicates, the \<^verbatim>\<open>std::map\<close> of new heights an association list with one entry per key.
\<close>

record TerraformerState =
  dirty_tiles :: "TileIndex list"
  tile_to_new_height :: "(TileIndex \<times> int) list"

definition set_insert :: "TileIndex \<Rightarrow> TileIndex list \<Rightarrow> TileIndex list" where
  "set_insert tile tiles = (if tile \<in> set tiles then tiles else insort tile tiles)"

definition map_assign :: "TileIndex \<Rightarrow> int \<Rightarrow> (TileIndex \<times> int) list \<Rightarrow> (TileIndex \<times> int) list" where
  "map_assign tile height m =
     (if tile \<in> fst ` set m
      then map (\<lambda>(k, v). if k = tile then (k, height) else (k, v)) m
      else m @ [(tile, height)])"

definition TerraformGetHeightOfTile ::
  "(TileIndex \<Rightarrow> int) \<Rightarrow> TerraformerState \<Rightarrow> TileIndex \<Rightarrow> int" where
  "TerraformGetHeightOfTile hts ts tile =
     (case map_of (tile_to_new_height ts) tile of Some h \<Rightarrow> h | None \<Rightarrow> hts tile)"

definition TerraformSetHeightOfTile ::
  "TerraformerState \<Rightarrow> TileIndex \<Rightarrow> int \<Rightarrow> TerraformerState" where
  "TerraformSetHeightOfTile ts tile height =
     ts\<lparr>tile_to_new_height := map_assign tile height (tile_to_new_height ts)\<rparr>"

definition TerraformAddDirtyTile :: "TerraformerState \<Rightarrow> TileIndex \<Rightarrow> TerraformerState" where
  "TerraformAddDirtyTile ts tile = ts\<lparr>dirty_tiles := set_insert tile (dirty_tiles ts)\<rparr>"

definition TerraformAddDirtyTileAround ::
  "terraform_game \<Rightarrow> TerraformerState \<Rightarrow> TileIndex \<Rightarrow> TerraformerState" where
  "TerraformAddDirtyTileAround g ts tile =
     (let ts1 = (if TileY g tile \<ge> 1
                 then TerraformAddDirtyTile ts (tile_add tile (TileDiffXY g 0 (-1))) else ts);
          ts2 = (if TileY g tile \<ge> 1 \<and> TileX g tile \<ge> 1
                 then TerraformAddDirtyTile ts1 (tile_add tile (TileDiffXY g (-1) (-1))) else ts1);
          ts3 = (if TileX g tile \<ge> 1
                 then TerraformAddDirtyTile ts2 (tile_add tile (TileDiffXY g (-1) 0)) else ts2)
      in TerraformAddDirtyTile ts3 tile)"

definition terraform_tilepos :: "(int \<times> int) list" where
  "terraform_tilepos = [(1, 0), (-2, 0), (1, 1), (0, -2)]"

text \<open>
  \<^verbatim>\<open>TerraformTileHeight\<close> recurses into neighbouring corners. The first argument is fuel:
  \<open>None\<close> means the recursion was cut off, \<open>Some (Inl AssertionFailed)\<close> that
  \<^verbatim>\<open>assert(tile < MapSize())\<close> failed. Otherwise the result holds the returned
  \<^verbatim>\<open>CommandCost\<close>, the terraformer state and \<^verbatim>\<open>_terraform_err_tile\<close> as the call leaves
  them. \<open>hts\<close> is the stored height of every tile (\<^verbatim>\<open>TileHeight\<close>).
  \<open>TerraformTileHeight_neighbours\<close> is the loop over \<^verbatim>\<open>_terraform_tilepos\<close>.
\<close>

fun TerraformTileHeight ::
    "nat \<Rightarrow> terraform_game \<Rightarrow> (TileIndex \<Rightarrow> int) \<Rightarrow> TerraformerState \<Rightarrow> TileIndex \<Rightarrow>
     TileIndex \<Rightarrow> int \<Rightarrow> (error + CommandCost \<times> TerraformerState \<times> TileIndex) option"
  and TerraformTileHeight_neighbours ::
    "nat \<Rightarrow> terraform_game \<Rightarrow> (TileIndex \<Rightarrow> int) \<Rightarrow> TerraformerState \<Rightarrow> TileIndex \<Rightarrow>
     TileIndex \<Rightarrow> TileIndex \<Rightarrow> int \<Rightarrow> CommandCost \<Rightarrow> (int \<times> int) list \<Rightarrow>
     (error + CommandCost \<times> TerraformerState \<times> TileIndex) option"
  where
  "TerraformTileHeight 0 g hts ts err_tile tile height = None"
| "TerraformTileHeight (Suc fuel) g hts ts err_tile tile height =
     (if \<not> tile < MapSize g then Some (Inl AssertionFailed)
      else if height < 0 then
        Some (Inr (return_cmd_error STR_ERROR_ALREADY_AT_SEA_LEVEL, ts, err_tile))
      else if height > max_heightlevel g then
        Some (Inr (return_cmd_error STR_ERROR_TOO_HIGH, ts, err_tile))
      else if height = TerraformGetHeightOfTile hts ts tile then
        Some (Inr (CMD_ERROR, ts, err_tile))
      else if \<not> freeform_edges g \<and>
              (TileX g tile \<le> 1 \<or> TileY g tile \<le> 1 \<or>
               TileX g tile \<ge> to_uint (MapMaxX g - 1) \<or> TileY g tile \<ge> to_uint (MapMaxY g - 1))
      then
        Some (Inr (return_cmd_error STR_ERROR_TOO_CLOSE_TO_EDGE_OF_MAP, ts,
                   TileXY g (if TileX g tile = 1 then 0 else TileX g tile)
                             (if TileY g tile = 1 then 0 else TileY g tile)))
      else
        TerraformTileHeight_neighbours fuel g hts
          (TerraformSetHeightOfTile (TerraformAddDirtyTileAround g ts tile) tile height)
          err_tile tile tile height
          (AddCost_Money (CommandCost_ok 0) (price_PR_TERRAFORM g))
          terraform_tilepos)"
| "TerraformTileHeight_neighbours fuel g hts ts err_tile orig_tile tile height total_cost [] =
     Some (Inr (total_cost, ts, err_tile))"
| "TerraformTileHeight_neighbours fuel g hts ts err_tile orig_tile tile height total_cost
       (ttm # ttms) =
     (let tile' = tile_add tile (ToTileIndexDiff g ttm) in
      if tile' \<ge> MapSize g then
        TerraformTileHeight_neighbours fuel g hts ts err_tile orig_tile tile' height total_cost ttms
      else if Delta (TileX g orig_tile) (TileX g tile') = to_uint (MapSizeX g - 1) then
        TerraformTileHeight_neighbours fuel g hts ts err_tile orig_tile tile' height total_cost ttms
      else if Delta (TileY g orig_tile) (TileY g tile') = to_uint (MapSizeY g - 1) then
        TerraformTileHeight_neighbours fuel g hts ts err_tile orig_tile tile' height total_cost ttms
      else
        (let r = TerraformGetHeightOfTile hts ts tile';
             height_diff = height - r
         in if \<bar>height_diff\<bar> > 1 then
              (case TerraformTileHeight fuel g hts ts err_tile tile'
                      (r + (height_diff + (if height_diff < 0 then 1 else -1))) of
                 None \<Rightarrow> None
               | Some (Inl e) \<Rightarrow> Some (Inl e)
               | Some (Inr (cst, ts', err_tile')) \<Rightarrow>
                   if Failed cst then Some (Inr (cst, ts', err_tile'))
                   else TerraformTileHeight_neighbours fuel g hts ts' err_tile' orig_tile tile'
                          height (AddCost total_cost cst) ttms)
            else
              TerraformTileHeight_neighbours fuel g hts ts err_tile orig_tile tile' height
                total_cost ttms))"


section \<open>The terraform command (terraform\_cmd.cpp, CmdTerraformLand)\<close>

text \<open>
  The game state the command changes: the stored height of every tile of the main map,
  the current company (if it is a valid one) and the global \<^verbatim>\<open>_terraform_err_tile\<close>.
\<close>

record terraform_world =
  tile_height :: "TileIndex \<Rightarrow> int"
  current_company :: "Company option"
  terraform_err_tile :: TileIndex

text \<open>
  The collaborators the validation loop asks about a tile: tile type, bridges, tunnels,
  the list of cleared objects, the clear command and the tile type's terraform hook.
  Each takes the number of the pass, since a pass with \<^verbatim>\<open>DC_EXEC\<close> may change what a later
  query answers; none of them writes a tile height.
\<close>

record terraform_hooks =
  IsTileType_MP_VOID :: "nat \<Rightarrow> TileIndex \<Rightarrow> bool"
  IsBridgeAbove :: "TileIndex \<Rightarrow> bool"
  GetBridgeHeight_SouthernBridgeEnd :: "TileIndex \<Rightarrow> int"
  IsTunnelInWay :: "TileIndex \<Rightarrow> int \<Rightarrow> bool"
  indirectly_cleared :: "nat \<Rightarrow> TileIndex \<Rightarrow> bool"
  DoCommand_LANDSCAPE_CLEAR :: "nat \<Rightarrow> TileIndex \<Rightarrow> DoCommandFlag \<Rightarrow> CommandCost"
  terraform_tile_proc :: "nat \<Rightarrow> TileIndex \<Rightarrow> DoCommandFlag \<Rightarrow> int \<Rightarrow> Slope \<Rightarrow> CommandCost"

text \<open>A step of a function body either returns from the function or lets it go on.\<close>

datatype ('r, 'a) flow = Returns 'r | Continues 'a

text \<open>
  The four blocks that terraform the corners selected by \<open>p1\<close>: each entry of the list
  is the block's condition and its tile \<open>t\<close>. A failed corner returns its cost.
\<close>

fun CmdTerraformLand_corners ::
  "nat \<Rightarrow> terraform_game \<Rightarrow> (TileIndex \<Rightarrow> int) \<Rightarrow> int \<Rightarrow> (bool \<times> TileIndex) list \<Rightarrow>
   CommandCost \<times> TerraformerState \<times> TileIndex \<Rightarrow>
   (error + (CommandCost \<times> TileIndex, CommandCost \<times> TerraformerState \<times> TileIndex) flow) option"
  where
  "CmdTerraformLand_corners fuel g hts direction [] acc = Some (Inr (Continues acc))"
| "CmdTerraformLand_corners fuel g hts direction ((enabled, t) # rest) (total_cost, ts, err_tile) =
     (if \<not> enabled then
        CmdTerraformLand_corners fuel g hts direction rest (total_cost, ts, err_tile)
      else
        (case TerraformTileHeight fuel g hts ts err_tile t (hts t + direction) of
           None \<Rightarrow> None
         | Some (Inl e) \<Rightarrow> Some (Inl e)
         | Some (Inr (cst, ts', err_tile')) \<Rightarrow>
             if Failed cst then Some (Inr (Returns (cst, err_tile')))
             else CmdTerraformLand_corners fuel g hts direction rest
                    (AddCost total_cost cst, ts', err_tile')))"

definition CmdTerraformLand_tileh :: "int \<Rightarrow> int \<Rightarrow> int \<Rightarrow> int \<Rightarrow> Slope" where
  "CmdTerraformLand_tileh z_N z_W z_S z_E =
     (let z_min = min (min z_N z_W) (min z_S z_E);
          z_max = max (max z_N z_W) (max z_S z_E);
          tileh0 = (if z_max > z_min + 1 then SLOPE_STEEP else SLOPE_FLAT);
          tileh1 = (if z_W > z_min then tileh0 OR SLOPE_W else tileh0);
          tileh2 = (if z_S > z_min then tileh1 OR SLOPE_S else tileh1);
          tileh3 = (if z_E > z_min then tileh2 OR SLOPE_E else tileh2)
      in if z_N > z_min then tileh3 OR SLOPE_N else tileh3)"

text \<open>
  The body of the validation loop for one dirty tile in one pass. It returns a failure,
  or goes on with the cost the tile contributes (none for a void tile).
\<close>

definition CmdTerraformLand_tile ::
  "terraform_game \<Rightarrow> terraform_hooks \<Rightarrow> (TileIndex \<Rightarrow> int) \<Rightarrow> DoCommandFlag \<Rightarrow> int \<Rightarrow>
   TerraformerState \<Rightarrow> nat \<Rightarrow> TileIndex \<Rightarrow> error + (CommandCost, CommandCost option) flow" where
  "CmdTerraformLand_tile g hooks hts flags direction ts pass tile =
     (if \<not> tile < MapSize g then Inl AssertionFailed
      else if IsTileType_MP_VOID hooks pass tile then Inr (Continues None)
      else
        (let z_N = TerraformGetHeightOfTile hts ts (tile_add tile (TileDiffXY g 0 0));
             z_W = TerraformGetHeightOfTile hts ts (tile_add tile (TileDiffXY g 1 0));
             z_S = TerraformGetHeightOfTile hts ts (tile_add tile (TileDiffXY g 1 1));
             z_E = TerraformGetHeightOfTile hts ts (tile_add tile (TileDiffXY g 0 1));
             z_min = min (min z_N z_W) (min z_S z_E);
             z_max = max (max z_N z_W) (max z_S z_E);
             tileh = CmdTerraformLand_tileh z_N z_W z_S z_E
         in if pass = 0 \<and> IsBridgeAbove hooks tile \<and> direction = 1 \<and>
               GetBridgeHeight_SouthernBridgeEnd hooks tile \<le> z_max
            then Inr (Returns (return_cmd_error STR_ERROR_MUST_DEMOLISH_BRIDGE_FIRST))
            else if pass = 0 \<and> IsBridgeAbove hooks tile \<and> direction = -1 \<and>
               GetBridgeHeight_SouthernBridgeEnd hooks tile > z_min + max_bridge_height g
            then Inr (Returns (return_cmd_error STR_ERROR_BRIDGE_TOO_HIGH_AFTER_LOWER_LAND))
            else if pass = 0 \<and> direction = -1 \<and> IsTunnelInWay hooks tile z_min
            then Inr (Returns (return_cmd_error STR_ERROR_EXCAVATION_WOULD_DAMAGE))
            else
              (let tile_flags0 = flags \<union> {DC_AUTO, DC_FORCE_CLEAR_TILE};
                   tile_flags = (if pass = 0
                                 then (tile_flags0 - {DC_EXEC}) \<union> {DC_NO_MODIFY_TOWN_RATING}
                                 else tile_flags0);
                   cst = (if indirectly_cleared hooks pass tile
                          then DoCommand_LANDSCAPE_CLEAR hooks pass tile tile_flags
                          else terraform_tile_proc hooks pass tile tile_flags z_min tileh)
               in if Failed cst then Inr (Returns cst) else Inr (Continues (Some cst)))))"

text \<open>One pass over the dirty tiles; a failure also names the tile for \<^verbatim>\<open>_terraform_err_tile\<close>.\<close>

fun CmdTerraformLand_pass ::
  "terraform_game \<Rightarrow> terraform_hooks \<Rightarrow> (TileIndex \<Rightarrow> int) \<Rightarrow> DoCommandFlag \<Rightarrow> int \<Rightarrow>
   TerraformerState \<Rightarrow> nat \<Rightarrow> TileIndex list \<Rightarrow> CommandCost \<Rightarrow>
   error + (CommandCost \<times> TileIndex, CommandCost) flow" where
  "CmdTerraformLand_pass g hooks hts flags direction ts pass [] total_cost =
     Inr (Continues total_cost)"
| "CmdTerraformLand_pass g hooks hts flags direction ts pass (tile # tiles) total_cost =
     (case CmdTerraformLand_tile g hooks hts flags direction ts pass tile of
        Inl e \<Rightarrow> Inl e
      | Inr (Returns cst) \<Rightarrow> Inr (Returns (cst, tile))
      | Inr (Continues None) \<Rightarrow>
          CmdTerraformLand_pass g hooks hts flags direction ts pass tiles total_cost
      | Inr (Continues (Some cst)) \<Rightarrow>
          CmdTerraformLand_pass g hooks hts flags direction ts pass tiles
            (if pass = 1 then AddCost total_cost cst else total_cost))"

text \<open>The loop \<^verbatim>\<open>SetTileHeight(tile, (uint)height)\<close> over the map of new heights.\<close>

fun SetTileHeights :: "(TileIndex \<times> int) list \<Rightarrow> (TileIndex \<Rightarrow> int) \<Rightarrow> TileIndex \<Rightarrow> int" where
  "SetTileHeights [] hts = hts"
| "SetTileHeights ((tile, height) # rest) hts = SetTileHeights rest (hts(tile := to_uint height))"

definition terraform_limit_reached :: "Company option \<Rightarrow> TerraformerState \<Rightarrow> bool" where
  "terraform_limit_reached c ts =
     (case c of None \<Rightarrow> False
      | Some co \<Rightarrow> uint (GB (terraform_limit co) 16 16) < int (length (tile_to_new_height ts)))"

definition CmdTerraformLand_exec ::
  "terraform_world \<Rightarrow> TerraformerState \<Rightarrow> terraform_world" where
  "CmdTerraformLand_exec w ts =
     w\<lparr>tile_height := SetTileHeights (tile_to_new_height ts) (tile_height w),
       current_company :=
         (case current_company w of None \<Rightarrow> None
          | Some co \<Rightarrow>
              Some (co\<lparr>terraform_limit :=
                terraform_limit co - push_bit 16 (word_of_nat (length (tile_to_new_height ts)))\<rparr>))\<rparr>"

text \<open>
  \<^verbatim>\<open>CmdTerraformLand\<close> in three parts. \<open>CmdTerraformLand_collect\<close> computes the new
  heights in a fresh \<^verbatim>\<open>TerraformerState\<close>; \<open>CmdTerraformLand_validate\<close> is the loop
  \<^verbatim>\<open>for (int pass = 0; pass < 2; pass++)\<close> over the dirty tiles; \<open>CmdTerraformLand\<close> then
  checks the company's terraform limit and, with \<^verbatim>\<open>DC_EXEC\<close>, writes the heights. The
  result is the returned \<^verbatim>\<open>CommandCost\<close> and the game state after the call. (The
  temporary change of \<^verbatim>\<open>_generating_world\<close> around the hook call is restored before the
  loop goes on and is not part of the state here.)
\<close>

definition CmdTerraformLand_collect ::
  "nat \<Rightarrow> terraform_game \<Rightarrow> (TileIndex \<Rightarrow> int) \<Rightarrow> TileIndex \<Rightarrow> int \<Rightarrow> int \<Rightarrow>
   (error + (CommandCost \<times> TileIndex, CommandCost \<times> TerraformerState \<times> TileIndex) flow) option"
  where
  "CmdTerraformLand_collect fuel g hts tile p1 direction =
     CmdTerraformLand_corners fuel g hts direction
       [(p1 AND SLOPE_W \<noteq> 0 \<and> tile_add tile (TileDiffXY g 1 0) < MapSize g,
         tile_add tile (TileDiffXY g 1 0)),
        (p1 AND SLOPE_S \<noteq> 0 \<and> tile_add tile (TileDiffXY g 1 1) < MapSize g,
         tile_add tile (TileDiffXY g 1 1)),
        (p1 AND SLOPE_E \<noteq> 0 \<and> tile_add tile (TileDiffXY g 0 1) < MapSize g,
         tile_add tile (TileDiffXY g 0 1)),
        (p1 AND SLOPE_N \<noteq> 0, tile_add tile (TileDiffXY g 0 0))]
       (CommandCost_ok 0, \<lparr>dirty_tiles = [], tile_to_new_height = []\<rparr>, INVALID_TILE)"

definition CmdTerraformLand_validate ::
  "terraform_game \<Rightarrow> terraform_hooks \<Rightarrow> (TileIndex \<Rightarrow> int) \<Rightarrow> DoCommandFlag \<Rightarrow> int \<Rightarrow>
   TerraformerState \<Rightarrow> CommandCost \<Rightarrow> error + (CommandCost \<times> TileIndex, CommandCost) flow" where
  "CmdTerraformLand_validate g hooks hts flags direction ts total_cost =
     (case CmdTerraformLand_pass g hooks hts flags direction ts 0 (dirty_tiles ts) total_cost of
        Inl e \<Rightarrow> Inl e
      | Inr (Returns r) \<Rightarrow> Inr (Returns r)
      | Inr (Continues total_cost0) \<Rightarrow>
          CmdTerraformLand_pass g hooks hts flags direction ts 1 (dirty_tiles ts) total_cost0)"

definition CmdTerraformLand ::
  "nat \<Rightarrow> terraform_game \<Rightarrow> terraform_hooks \<Rightarrow> terraform_world \<Rightarrow> TileIndex \<Rightarrow> DoCommandFlag \<Rightarrow>
   int \<Rightarrow> int \<Rightarrow> (error + CommandCost \<times> terraform_world) option" where
  "CmdTerraformLand fuel g hooks w tile flags p1 p2 =
     (let direction = (if p2 \<noteq> 0 then 1 else -1);
          hts = tile_height w
      in case CmdTerraformLand_collect fuel g hts tile p1 direction of
           None \<Rightarrow> None
         | Some (Inl e) \<Rightarrow> Some (Inl e)
         | Some (Inr (Returns (cst, err_tile))) \<Rightarrow>
             Some (Inr (cst, w\<lparr>terraform_err_tile := err_tile\<rparr>))
         | Some (Inr (Continues (total_cost, ts, err_tile))) \<Rightarrow>
             (case CmdTerraformLand_validate g hooks hts flags direction ts total_cost of
                Inl e \<Rightarrow> Some (Inl e)
              | Inr (Returns (cst, t)) \<Rightarrow> Some (Inr (cst, w\<lparr>terraform_err_tile := t\<rparr>))
              | Inr (Continues total_cost1) \<Rightarrow>
                  if terraform_limit_reached (current_company w) ts then
                    Some (Inr (return_cmd_error STR_ERROR_TERRAFORM_LIMIT_REACHED,
                               w\<lparr>terraform_err_tile := err_tile\<rparr>))
                  else if DC_EXEC \<in> flags then
                    Some (Inr (total_cost1,
                               CmdTerraformLand_exec (w\<lparr>terraform_err_tile := err_tile\<rparr>) ts))
                  else Some (Inr (total_cost1, w\<lparr>terraform_err_tile := err_tile\<rparr>))))"


text \<open>
  Worked examples: a 16 x 16 map without freeform edges, collaborators that allow
  everything (no void tiles, bridges, tunnels or cleared objects; the tile hook
  succeeds at no cost) or that have a bridge of height 1 above the tile (4, 4), tile 68,
  and a world that is flat at height 0 except for the corner (5, 5), tile 85, at height 1.
\<close>

definition small_game :: terraform_game where
  "small_game =
     \<lparr>main_map = \<lparr>size_x = 16, size_y = 16, size = 256\<rparr>, MapLogX = 4,
      max_heightlevel = 15, freeform_edges = False, max_bridge_height = 12,
      price_PR_TERRAFORM = 100\<rparr>"

definition permissive_hooks :: terraform_hooks where
  "permissive_hooks =
     \<lparr>IsTileType_MP_VOID = (\<lambda>pass tile. False),
      IsBridgeAbove = (\<lambda>tile. False),
      GetBridgeHeight_SouthernBridgeEnd = (\<lambda>tile. 0),
      IsTunnelInWay = (\<lambda>tile z. False),
      indirectly_cleared = (\<lambda>pass tile. False),
      DoCommand_LANDSCAPE_CLEAR = (\<lambda>pass tile flags. CommandCost_ok 0),
      terraform_tile_proc = (\<lambda>pass tile flags z_min tileh. CommandCost_ok 0)\<rparr>"

definition bridge_hooks :: terraform_hooks where
  "bridge_hooks =
     permissive_hooks\<lparr>IsBridgeAbove := (\<lambda>tile. tile = 68),
                       GetBridgeHeight_SouthernBridgeEnd := (\<lambda>tile. 1)\<rparr>"

definition hill_world :: "32 word \<Rightarrow> terraform_world" where
  "hill_world lim =
     \<lparr>tile_height = (\<lambda>tile. if tile = 85 then 1 else 0),
      current_company = Some \<lparr>terraform_limit = lim\<rparr>,
      terraform_err_tile = INVALID_TILE\<rparr>"


text \<open>
  Two conditions of \<^verbatim>\<open>TerraformTileHeight\<close>, named for the proofs: that a call gets past its
  checks and stores the new height, and that its loop passes over a neighbouring tile
  without recursing into it.
\<close>

definition TerraformTileHeight_stores ::
  "terraform_game \<Rightarrow> (TileIndex \<Rightarrow> int) \<Rightarrow> TerraformerState \<Rightarrow> TileIndex \<Rightarrow> int \<Rightarrow> bool" where
  "TerraformTileHeight_stores g hts ts tile height =
     (tile < MapSize g \<and> 0 \<le> height \<and> height \<le> max_heightlevel g \<and>
      height \<noteq> TerraformGetHeightOfTile hts ts tile \<and>
      (freeform_edges g \<or>
       \<not> (TileX g tile \<le> 1 \<or> TileY g tile \<le> 1 \<or>
          TileX g tile \<ge> to_uint (MapMaxX g - 1) \<or> TileY g tile \<ge> to_uint (MapMaxY g - 1))))"

definition neighbour_skipped ::
  "terraform_game \<Rightarrow> (TileIndex \<Rightarrow> int) \<Rightarrow> TerraformerState \<Rightarrow> TileIndex \<Rightarrow> TileIndex \<Rightarrow> int \<Rightarrow> bool"
  where
  "neighbour_skipped g hts ts orig tile' h =
     (tile' \<ge> MapSize g \<or> Delta (TileX g orig) (TileX g tile') = to_uint (MapSizeX g - 1)
        \<or> Delta (TileY g orig) (TileY g tile') = to_uint (MapSizeY g - 1)
        \<or> \<not> \<bar>h - TerraformGetHeightOfTile hts ts tile'\<bar> > 1)"


text \<open>
  What the properties of the terraform command assume and state of a map and its heights.
  A map is well formed when its width is \<open>2 ^ MapLogX\<close>, width and height are at least 3
  (the tests of \<^verbatim>\<open>TerraformTileHeight\<close> against wrapping around the map need it), its size
  is width times height and leaves room for one more row in a \<^verbatim>\<open>uint\<close>, and the maximum
  height level fits a \<^verbatim>\<open>uint\<close>. Two tiles of the map are adjacent when their north corners
  are next to each other along X or along Y, and diagonal to each other when they differ
  by one along both. The heights are valid when every height of the map lies between 0
  and the maximum height level and adjacent corners differ by at most 1.
\<close>

definition wf_game :: "terraform_game \<Rightarrow> bool" where
  "wf_game g =
     (MapSizeX g = 2 ^ MapLogX g \<and> 3 \<le> MapSizeX g \<and> 3 \<le> MapSizeY g \<and>
      MapSize g = MapSizeX g * MapSizeY g \<and> MapSize g + MapSizeX g \<le> 2 ^ 32 \<and>
      0 \<le> max_heightlevel g \<and> max_heightlevel g < 2 ^ 32)"

definition adjacent :: "terraform_game \<Rightarrow> TileIndex \<Rightarrow> TileIndex \<Rightarrow> bool" where
  "adjacent g a b =
     (0 \<le> a \<and> a < MapSize g \<and> 0 \<le> b \<and> b < MapSize g \<and>
      \<bar>TileX g a - TileX g b\<bar> + \<bar>TileY g a - TileY g b\<bar> = 1)"

definition heights_valid :: "terraform_game \<Rightarrow> (TileIndex \<Rightarrow> int) \<Rightarrow> bool" where
  "heights_valid g hts =
     (\<forall>a\<in>{0..<MapSize g}. (0 \<le> hts a \<and> hts a \<le> max_heightlevel g) \<and>
        (\<forall>b\<in>{0..<MapSize g}. adjacent g a b \<longrightarrow> \<bar>hts a - hts b\<bar> \<le> 1))"

definition diagonal :: "terraform_game \<Rightarrow> TileIndex \<Rightarrow> TileIndex \<Rightarrow> bool" where
  "diagonal g a b =
     (0 \<le> a \<and> a < MapSize g \<and> 0 \<le> b \<and> b < MapSize g \<and>
      \<bar>TileX g a - TileX g b\<bar> = 1 \<and> \<bar>TileY g a - TileY g b\<bar> = 1)"

text \<open>
  Named for the proofs about \<^verbatim>\<open>TerraformTileHeight\<close>, for a command in the direction \<open>d\<close> (1
  or -1): every new height is the stored height moved by \<open>d\<close>, for a tile of the map, each
  tile once; the pairs still to be dealt with, a corner with a new height next to one
  without that is more than 1 away; the test that the loop does not pass over a
  neighbouring tile as outside the map or wrapped around; the tiles the loop comes to; and
  the fuel that a call with target height \<open>h\<close> needs.
\<close>

definition new_heights_ok ::
  "terraform_game \<Rightarrow> int \<Rightarrow> (TileIndex \<Rightarrow> int) \<Rightarrow> TerraformerState \<Rightarrow> bool" where
  "new_heights_ok g d hts ts =
     (distinct (map fst (tile_to_new_height ts)) \<and>
      (\<forall>(t, v)\<in>set (tile_to_new_height ts).
         0 \<le> t \<and> t < MapSize g \<and> v = hts t + d \<and> 0 \<le> v \<and> v \<le> max_heightlevel g))"

definition pending ::
  "terraform_game \<Rightarrow> int \<Rightarrow> (TileIndex \<Rightarrow> int) \<Rightarrow> TerraformerState \<Rightarrow> (TileIndex \<times> TileIndex) set"
  where
  "pending g d hts ts =
     {(a, b). adjacent g a b \<and> a \<in> fst ` set (tile_to_new_height ts) \<and>
              b \<notin> fst ` set (tile_to_new_height ts) \<and> \<bar>hts a + d - hts b\<bar> > 1}"

definition geo_ok :: "terraform_game \<Rightarrow> TileIndex \<Rightarrow> TileIndex \<Rightarrow> bool" where
  "geo_ok g orig tile' =
     (tile' < MapSize g \<and> Delta (TileX g orig) (TileX g tile') \<noteq> to_uint (MapSizeX g - 1) \<and>
      Delta (TileY g orig) (TileY g tile') \<noteq> to_uint (MapSizeY g - 1))"

fun candidates :: "terraform_game \<Rightarrow> TileIndex \<Rightarrow> (int \<times> int) list \<Rightarrow> TileIndex list" where
  "candidates g tile [] = []"
| "candidates g tile (ttm # ttms) =
     tile_add tile (ToTileIndexDiff g ttm) # candidates g (tile_add tile (ToTileIndexDiff g ttm)) ttms"

definition enough_fuel :: "terraform_game \<Rightarrow> int \<Rightarrow> nat \<Rightarrow> int \<Rightarrow> bool" where
  "enough_fuel g d fuel h =
     (1 \<le> fuel \<and> (if d = 1 then h + 2 \<le> int fuel else max_heightlevel g - h + 2 \<le> int fuel))"


section \<open>Generic tile indices and orthogonal tile areas (map\_func.h, tilearea.cpp)\<close>

text \<open>
  A \<^verbatim>\<open>GenericTileIndex\<close> is a raw index with a pointer to its map; the pointer may be
  null. Two indices are on the same map when their pointers are equal, which is equality
  of the maps here. The template parameter \<^verbatim>\<open>Tgeneric\<close> of the areas and iterators
  is the generic instance throughout: a \<^verbatim>\<open>TileIndex\<close> of the main map is the generic
  index whose map is \<^verbatim>\<open>_main_map\<close> (for the main map \<^verbatim>\<open>y << MapLogX()\<close> is
  \<^verbatim>\<open>y * MapSizeX()\<close>). Dereferencing a null map is the error \<open>NullPointerDereference\<close>.
\<close>

record GenericTileIndex =
  index :: int
  map_ptr :: "Map option"

definition INVALID_TILE_INDEX :: int where
  "INVALID_TILE_INDEX = 2 ^ 32 - 1"

definition MapOf :: "GenericTileIndex \<Rightarrow> Map option" where
  "MapOf t = map_ptr t"

definition IndexOf :: "GenericTileIndex \<Rightarrow> int" where
  "IndexOf t = index t"

definition IsSameMap :: "GenericTileIndex \<Rightarrow> GenericTileIndex \<Rightarrow> bool" where
  "IsSameMap a b = (MapOf a = MapOf b)"

definition IsValidTileIndex :: "GenericTileIndex \<Rightarrow> bool" where
  "IsValidTileIndex t = (case MapOf t of None \<Rightarrow> False | Some m \<Rightarrow> IndexOf t < size m)"

text \<open>
  \<^verbatim>\<open>TileX\<close>, \<^verbatim>\<open>TileY\<close> and \<^verbatim>\<open>TileXY\<close> for a tile whose map \<open>m\<close> has been looked up.
\<close>

definition TileX_generic :: "Map \<Rightarrow> GenericTileIndex \<Rightarrow> int" where
  "TileX_generic m t = IndexOf t mod size_x m"

definition TileY_generic :: "Map \<Rightarrow> GenericTileIndex \<Rightarrow> int" where
  "TileY_generic m t = IndexOf t div size_x m"

definition TileXY_generic :: "int \<Rightarrow> int \<Rightarrow> Map \<Rightarrow> GenericTileIndex" where
  "TileXY_generic x y m = \<lparr>index = to_uint (y * size_x m + x), map_ptr = Some m\<rparr>"

definition to_uint16 :: "int \<Rightarrow> int" where
  "to_uint16 v = v mod 2 ^ 16"

definition to_int16 :: "int \<Rightarrow> int" where
  "to_int16 v = (v + 2 ^ 15) mod 2 ^ 16 - 2 ^ 15"

definition to_int32 :: "int \<Rightarrow> int" where
  "to_int32 v = (v + 2 ^ 31) mod 2 ^ 32 - 2 ^ 31"

text \<open>
  \<^verbatim>\<open>IsInsideBS(x, base, size)\<close> (core/math\_func.hpp, not among the sources) is
  \<^verbatim>\<open>(size_t)(x - base) < size\<close>, with a 64-bit \<^verbatim>\<open>size_t\<close>.
\<close>

definition IsInsideBS :: "int \<Rightarrow> int \<Rightarrow> int \<Rightarrow> bool" where
  "IsInsideBS x base sz = ((x - base) mod 2 ^ 64 < sz)"

text \<open>The area: base tile, width and height (both \<^verbatim>\<open>uint16\<close>).\<close>

record OrthogonalTileArea =
  area_tile :: GenericTileIndex
  area_w :: int
  area_h :: int

definition Add :: "OrthogonalTileArea \<Rightarrow> GenericTileIndex \<Rightarrow> error + OrthogonalTileArea" where
  "Add this to_add =
     (if \<not> IsValidTileIndex (area_tile this) then
        Inr \<lparr>area_tile = to_add, area_w = 1, area_h = 1\<rparr>
      else if \<not> IsSameMap (area_tile this) to_add then Inl AssertionFailed
      else
        (case MapOf to_add of
           None \<Rightarrow> Inl NullPointerDereference
         | Some m \<Rightarrow>
             (let sx = TileX_generic m (area_tile this);
                  sy = TileY_generic m (area_tile this);
                  ex = to_uint (sx + area_w this - 1);
                  ey = to_uint (sy + area_h this - 1);
                  ax = TileX_generic m to_add;
                  ay = TileY_generic m to_add;
                  sx' = min ax sx;
                  sy' = min ay sy;
                  ex' = max ax ex;
                  ey' = max ay ey
              in Inr \<lparr>area_tile = TileXY_generic sx' sy' m,
                      area_w = to_uint16 (to_uint (ex' - sx' + 1)),
                      area_h = to_uint16 (to_uint (ey' - sy' + 1))\<rparr>)))"

text \<open>Adding a sequence of tiles, one \<^verbatim>\<open>Add\<close> after the other.\<close>

fun Add_all :: "OrthogonalTileArea \<Rightarrow> GenericTileIndex list \<Rightarrow> error + OrthogonalTileArea" where
  "Add_all this [] = Inr this"
| "Add_all this (to_add # rest) =
     (case Add this to_add of Inl e \<Rightarrow> Inl e | Inr this' \<Rightarrow> Add_all this' rest)"

definition Contains :: "OrthogonalTileArea \<Rightarrow> GenericTileIndex \<Rightarrow> error + bool" where
  "Contains this t =
     (if area_w this = 0 then Inr False
      else if \<not> (area_w this \<noteq> 0 \<and> area_h this \<noteq> 0) then Inl AssertionFailed
      else if \<not> IsSameMap (area_tile this) t then Inl AssertionFailed
      else
        (case MapOf t of
           None \<Rightarrow> Inl NullPointerDereference
         | Some m \<Rightarrow>
             Inr (IsInsideBS (TileX_generic m t) (TileX_generic m (area_tile this)) (area_w this) \<and>
                  IsInsideBS (TileY_generic m t) (TileY_generic m (area_tile this)) (area_h this))))"

text \<open>
  \<^verbatim>\<open>Expand\<close>. The bounds \<^verbatim>\<open>MapSizeX()\<close> and \<^verbatim>\<open>MapSizeY()\<close> are called without an argument,
  so they are the sizes of the main map, the first parameter here; the coordinates and
  the new base tile use \<^verbatim>\<open>MapOf(this->tile)\<close>. \<^verbatim>\<open>min\<close> of an \<^verbatim>\<open>int\<close> and a \<^verbatim>\<open>uint\<close> is the
  \<^verbatim>\<open>int\<close> overload.
\<close>

definition Expand :: "Map \<Rightarrow> OrthogonalTileArea \<Rightarrow> int \<Rightarrow> error + OrthogonalTileArea" where
  "Expand main this rad =
     (case MapOf (area_tile this) of
        None \<Rightarrow> Inl NullPointerDereference
      | Some m \<Rightarrow>
          (let x = to_int32 (TileX_generic m (area_tile this));
               y = to_int32 (TileY_generic m (area_tile this));
               sx = max (x - rad) 0;
               sy = max (y - rad) 0;
               ex = min (x + area_w this + rad) (to_int32 (size_x main));
               ey = min (y + area_h this + rad) (to_int32 (size_y main))
           in Inr \<lparr>area_tile = TileXY_generic (to_uint sx) (to_uint sy) m,
                   area_w = to_uint16 (ex - sx),
                   area_h = to_uint16 (ey - sy)\<rparr>))"

text \<open>\<^verbatim>\<open>ClampToMap\<close>, which takes its bounds from the area's own map.\<close>

definition ClampToMap :: "OrthogonalTileArea \<Rightarrow> error + OrthogonalTileArea" where
  "ClampToMap this =
     (if \<not> IsValidTileIndex (area_tile this) then Inl AssertionFailed
      else
        (case MapOf (area_tile this) of
           None \<Rightarrow> Inl NullPointerDereference
         | Some m \<Rightarrow>
             Inr (this\<lparr>area_w := to_uint16 (min (area_w this)
                                      (to_uint (size_x m - TileX_generic m (area_tile this)))),
                       area_h := to_uint16 (min (area_h this)
                                      (to_uint (size_y m - TileY_generic m (area_tile this))))\<rparr>)))"

text \<open>
  What the properties below assume of a map and an area: the map's size is width times
  height and fits a tile index, width and height fit the \<^verbatim>\<open>uint16\<close> fields of an area;
  a tile is on the map; an area lies on the map and is not empty.
\<close>

definition map_ok :: "Map \<Rightarrow> bool" where
  "map_ok m = (0 < size_x m \<and> 0 < size_y m \<and> size m = size_x m * size_y m \<and>
               size m < 2 ^ 32 \<and> size_x m < 2 ^ 16 \<and> size_y m < 2 ^ 16)"

definition tile_on :: "Map \<Rightarrow> GenericTileIndex \<Rightarrow> bool" where
  "tile_on m t = (MapOf t = Some m \<and> 0 \<le> IndexOf t \<and> IndexOf t < size m)"

definition area_on :: "Map \<Rightarrow> OrthogonalTileArea \<Rightarrow> bool" where
  "area_on m a =
     (tile_on m (area_tile a) \<and> 1 \<le> area_w a \<and> 1 \<le> area_h a \<and>
      TileX_generic m (area_tile a) + area_w a \<le> size_x m \<and>
      TileY_generic m (area_tile a) + area_h a \<le> size_y m)"


text \<open>Two maps for worked examples: a 64 x 64 main map and an 8 x 8 clipboard map.\<close>

definition main_64 :: Map where
  "main_64 = \<lparr>size_x = 64, size_y = 64, size = 4096\<rparr>"

definition clipboard_8 :: Map where
  "clipboard_8 = \<lparr>size_x = 8, size_y = 8, size = 64\<rparr>"


text \<open>The first and last column and row of an area on the map \<open>m\<close>.\<close>

definition area_left :: "Map \<Rightarrow> OrthogonalTileArea \<Rightarrow> int" where
  "area_left m a = TileX_generic m (area_tile a)"

definition area_right :: "Map \<Rightarrow> OrthogonalTileArea \<Rightarrow> int" where
  "area_right m a = TileX_generic m (area_tile a) + area_w a - 1"

definition area_top :: "Map \<Rightarrow> OrthogonalTileArea \<Rightarrow> int" where
  "area_top m a = TileY_generic m (area_tile a)"

definition area_bottom :: "Map \<Rightarrow> OrthogonalTileArea \<Rightarrow> int" where
  "area_bottom m a = TileY_generic m (area_tile a) + area_h a - 1"

text \<open>
  The columns and the rows that the bounding box of an area and a list of tiles has to
  cover: those of the tiles and, unless the area is the empty one, its first and last.
\<close>

definition columns_to_cover :: "Map \<Rightarrow> OrthogonalTileArea \<Rightarrow> GenericTileIndex list \<Rightarrow> int set" where
  "columns_to_cover m a ts =
     TileX_generic m ` set ts \<union>
     (if IsValidTileIndex (area_tile a) then {area_left m a, area_right m a} else {})"

definition rows_to_cover :: "Map \<Rightarrow> OrthogonalTileArea \<Rightarrow> GenericTileIndex list \<Rightarrow> int set" where
  "rows_to_cover m a ts =
     TileY_generic m ` set ts \<union>
     (if IsValidTileIndex (area_tile a) then {area_top m a, area_bottom m a} else {})"


section \<open>Transformations between tile areas (map\_func.h, tilearea.cpp)\<close>

text \<open>
  A \<^verbatim>\<open>TileIndexDiffC\<close> has two \<^verbatim>\<open>int16\<close> components (\<^verbatim>\<open>x\<close> and \<^verbatim>\<open>y\<close>), a
  \<^verbatim>\<open>TileTransformation\<close> a direction transformation (\<^verbatim>\<open>dtr\<close>) and an offset; both types
  are declared in map\_type.h, which is not among the sources. \<^verbatim>\<open>AXIS_X\<close> is 0.
\<close>

record TileIndexDiffC =
  diff_x :: "16 word"
  diff_y :: "16 word"

record TileTransformation =
  tt_dtr :: DirTransformation
  tt_offset :: TileIndexDiffC

definition AXIS_X :: int where "AXIS_X = 0"

definition TransformAxis :: "int \<Rightarrow> DirTransformation \<Rightarrow> int" where
  "TransformAxis axis transformation = axis XOR (transformation AND 1)"

definition DIFF_X :: "8 word" where
  "DIFF_X =
     push_bit (nat DTR_IDENTITY) 0 OR push_bit (nat DTR_ROTATE_90_R) 0 OR
     push_bit (nat DTR_ROTATE_180) 1 OR push_bit (nat DTR_ROTATE_90_L) 1 OR
     push_bit (nat DTR_REFLECT_NE_SW) 0 OR push_bit (nat DTR_REFLECT_W_E) 1 OR
     push_bit (nat DTR_REFLECT_NW_SE) 1 OR push_bit (nat DTR_REFLECT_N_S) 0"

definition DIFF_Y :: "8 word" where
  "DIFF_Y =
     push_bit (nat DTR_IDENTITY) 0 OR push_bit (nat DTR_ROTATE_90_R) 1 OR
     push_bit (nat DTR_ROTATE_180) 1 OR push_bit (nat DTR_ROTATE_90_L) 0 OR
     push_bit (nat DTR_REFLECT_NE_SW) 1 OR push_bit (nat DTR_REFLECT_W_E) 1 OR
     push_bit (nat DTR_REFLECT_NW_SE) 0 OR push_bit (nat DTR_REFLECT_N_S) 0"

definition TransformedNorthCornerDiffC :: "DirTransformation \<Rightarrow> error + TileIndexDiffC" where
  "TransformedNorthCornerDiffC transformation =
     (if \<not> IsValidDirTransform transformation then Inl AssertionFailed
      else Inr \<lparr>diff_x = ucast (GB DIFF_X (nat transformation) 1),
               diff_y = ucast (GB DIFF_Y (nat transformation) 1)\<rparr>)"

text \<open>The condition in the \<^verbatim>\<open>assert\<close> of \<^verbatim>\<open>TransformationBetweenTileAreas\<close>.\<close>

definition extents_match :: "OrthogonalTileArea \<Rightarrow> OrthogonalTileArea \<Rightarrow> DirTransformation \<Rightarrow> bool" where
  "extents_match from to dtr =
     (if TransformAxis AXIS_X dtr = AXIS_X
      then area_w from = area_w to \<and> area_h from = area_h to
      else area_w from = area_h to \<and> area_h from = area_w to)"

text \<open>
  \<^verbatim>\<open>TransformationBetweenTiles\<close> is only declared in map\_func.h; its definition is not
  among the sources. It is the first parameter of the two functions below.
\<close>

definition TransformationBetweenTileAreas ::
  "(int \<Rightarrow> int \<Rightarrow> int \<Rightarrow> int \<Rightarrow> DirTransformation \<Rightarrow> TileTransformation) \<Rightarrow>
   OrthogonalTileArea \<Rightarrow> OrthogonalTileArea \<Rightarrow> DirTransformation \<Rightarrow> error + TileTransformation"
  where
  "TransformationBetweenTileAreas TransformationBetweenTiles from to dtr =
     (if \<not> extents_match from to dtr then Inl AssertionFailed
      else
        (case TransformedNorthCornerDiffC dtr of
           Inl e \<Rightarrow> Inl e
         | Inr dir \<Rightarrow>
             (case (MapOf (area_tile from), MapOf (area_tile to)) of
                (Some mf, Some mt) \<Rightarrow>
                  Inr (TransformationBetweenTiles
                         (to_int32 (TileX_generic mf (area_tile from)))
                         (to_int32 (TileY_generic mf (area_tile from)))
                         (to_int32 (to_uint (TileX_generic mt (area_tile to) +
                                             (area_w to - 1) * sint (diff_x dir))))
                         (to_int32 (to_uint (TileY_generic mt (area_tile to) +
                                             (area_h to - 1) * sint (diff_y dir))))
                         dtr)
              | _ \<Rightarrow> Inl NullPointerDereference)))"

definition TransformationBetweenTileAreaCorners ::
  "(int \<Rightarrow> int \<Rightarrow> int \<Rightarrow> int \<Rightarrow> DirTransformation \<Rightarrow> TileTransformation) \<Rightarrow>
   OrthogonalTileArea \<Rightarrow> OrthogonalTileArea \<Rightarrow> DirTransformation \<Rightarrow> error + TileTransformation"
  where
  "TransformationBetweenTileAreaCorners TransformationBetweenTiles from to dtr =
     (case TransformationBetweenTileAreas TransformationBetweenTiles from to dtr of
        Inl e \<Rightarrow> Inl e
      | Inr ret \<Rightarrow>
          (case TransformedNorthCornerDiffC dtr of
             Inl e \<Rightarrow> Inl e
           | Inr extra \<Rightarrow>
               Inr (ret\<lparr>tt_offset :=
                      \<lparr>diff_x = diff_x (tt_offset ret) + diff_x extra,
                       diff_y = diff_y (tt_offset ret) + diff_y extra\<rparr>\<rparr>)))"

text \<open>
  A stand-in for \<^verbatim>\<open>TransformationBetweenTiles\<close> in worked examples: it keeps the
  direction transformation and takes the destination coordinates as the offset.
\<close>

definition offset_to_destination ::
  "int \<Rightarrow> int \<Rightarrow> int \<Rightarrow> int \<Rightarrow> DirTransformation \<Rightarrow> TileTransformation" where
  "offset_to_destination from_x from_y to_x to_y dtr =
     \<lparr>tt_dtr = dtr, tt_offset = \<lparr>diff_x = word_of_int to_x, diff_y = word_of_int to_y\<rparr>\<rparr>"


section \<open>Diagonal tile areas and their iterator (tilearea\_type.h, tilearea.cpp)\<close>

text \<open>
  The diagonal area: a base tile and the signed extents \<^verbatim>\<open>a\<close> and \<^verbatim>\<open>b\<close> (both \<^verbatim>\<open>int16\<close>)
  along the two diagonals. The constructor from two corners computes them with
  \<^verbatim>\<open>uint\<close> arithmetic, narrows to \<^verbatim>\<open>int16\<close> and steps one further away from zero.
\<close>

record DiagonalTileArea =
  diag_tile :: GenericTileIndex
  diag_a :: int
  diag_b :: int

definition DiagonalTileArea_of_corners ::
  "GenericTileIndex \<Rightarrow> GenericTileIndex \<Rightarrow> error + DiagonalTileArea" where
  "DiagonalTileArea_of_corners start end' =
     (if \<not> IsSameMap start end' then Inl AssertionFailed
      else if \<not> IsValidTileIndex start then Inl AssertionFailed
      else if \<not> IsValidTileIndex end' then Inl AssertionFailed
      else
        (case MapOf start of
           None \<Rightarrow> Inl NullPointerDereference
         | Some m \<Rightarrow>
             (let a0 = to_int16 (to_uint (TileY_generic m end' + TileX_generic m end' -
                                          TileY_generic m start - TileX_generic m start));
                  b0 = to_int16 (to_uint (TileY_generic m end' - TileX_generic m end' -
                                          TileY_generic m start + TileX_generic m start))
              in Inr \<lparr>diag_tile = start,
                      diag_a = (if a0 > 0 then to_int16 (a0 + 1) else to_int16 (a0 - 1)),
                      diag_b = (if b0 > 0 then to_int16 (b0 + 1) else to_int16 (b0 - 1))\<rparr>)))"

definition Contains_diagonal :: "DiagonalTileArea \<Rightarrow> GenericTileIndex \<Rightarrow> error + bool" where
  "Contains_diagonal this t =
     (if \<not> IsSameMap (diag_tile this) t then Inl AssertionFailed
      else
        (case MapOf t of
           None \<Rightarrow> Inl NullPointerDereference
         | Some m \<Rightarrow>
             (let a = to_int32 (to_uint (TileY_generic m t + TileX_generic m t));
                  b = to_int32 (to_uint (TileY_generic m t - TileX_generic m t));
                  start_a = to_int32 (to_uint (TileY_generic m (diag_tile this) +
                                               TileX_generic m (diag_tile this)));
                  start_b = to_int32 (to_uint (TileY_generic m (diag_tile this) -
                                               TileX_generic m (diag_tile this)));
                  end_a = start_a + diag_a this;
                  end_b = start_b + diag_b this;
                  start_a' = (if start_a > end_a then end_a + 1 else start_a);
                  end_a' = (if start_a > end_a then start_a + 1 else end_a);
                  start_b' = (if start_b > end_b then end_b + 1 else start_b);
                  end_b' = (if start_b > end_b then start_b + 1 else end_b)
              in Inr (a \<ge> start_a' \<and> a < end_a' \<and> b \<ge> start_b' \<and> b < end_b'))))"

text \<open>The iterator; \<^verbatim>\<open>tile\<close> is the field of the base class \<^verbatim>\<open>TileIteratorT\<close>.\<close>

record DiagonalTileIterator =
  it_tile :: GenericTileIndex
  base_x :: int
  base_y :: int
  a_cur :: int
  b_cur :: int
  a_max :: int
  b_max :: int

definition DiagonalTileIterator_of_area :: "DiagonalTileArea \<Rightarrow> error + DiagonalTileIterator" where
  "DiagonalTileIterator_of_area ta =
     (case MapOf (diag_tile ta) of
        None \<Rightarrow> Inl NullPointerDereference
      | Some m \<Rightarrow>
          Inr \<lparr>it_tile = diag_tile ta,
               base_x = TileX_generic m (diag_tile ta),
               base_y = TileY_generic m (diag_tile ta),
               a_cur = 0, b_cur = 0, a_max = diag_a ta, b_max = diag_b ta\<rparr>)"

text \<open>Division of \<^verbatim>\<open>int\<close> values in C++ truncates towards zero.\<close>

definition trunc_div :: "int \<Rightarrow> int \<Rightarrow> int" where
  "trunc_div a b = sgn a * sgn b * (\<bar>a\<bar> div \<bar>b\<bar>)"

text \<open>
  One pass through the body of the \<^verbatim>\<open>do ... while\<close> loop of \<^verbatim>\<open>operator++\<close>, in its two
  parts: the move in the rotated coordinates, and the conversion back to a tile of the
  map \<open>m\<close> of the iterator's tile.
\<close>

definition DiagonalTileIterator_advance :: "DiagonalTileIterator \<Rightarrow> DiagonalTileIterator" where
  "DiagonalTileIterator_advance it =
     (if a_max it = 1 \<or> a_max it = -1 then
        it\<lparr>a_cur := 0,
           b_cur := (if b_max it > 0 then min (b_cur it + 2) (b_max it)
                     else max (b_cur it - 2) (b_max it))\<rparr>
      else
        (let a1 = (if a_max it > 0 then a_cur it + 2 else a_cur it - 2);
             new_line = (if a_max it > 0 then a1 \<ge> a_max it else a1 \<le> a_max it)
         in if new_line then
              it\<lparr>a_cur := (if \<bar>a1\<bar> mod 2 \<noteq> 0 then 0 else if a_max it > 0 then 1 else -1),
                 b_cur := (if b_max it > 0 then b_cur it + 1 else b_cur it - 1)\<rparr>
            else it\<lparr>a_cur := a1\<rparr>))"

definition DiagonalTileIterator_step :: "Map \<Rightarrow> DiagonalTileIterator \<Rightarrow> DiagonalTileIterator" where
  "DiagonalTileIterator_step m it =
     (let it1 = DiagonalTileIterator_advance it;
          x = to_uint (base_x it1 + trunc_div (a_cur it1 - b_cur it1) 2);
          y = to_uint (base_y it1 + trunc_div (b_cur it1 + a_cur it1) 2)
      in if x \<ge> size_x m \<or> y \<ge> size_y m
         then it1\<lparr>it_tile := (it_tile it1)\<lparr>index := INVALID_TILE_INDEX\<rparr>\<rparr>
         else it1\<lparr>it_tile := TileXY_generic x y m\<rparr>)"

text \<open>The loop: \<open>None\<close> stands for a loop that never ends.\<close>

partial_function (option) DiagonalTileIterator_loop ::
  "Map \<Rightarrow> DiagonalTileIterator \<Rightarrow> DiagonalTileIterator option" where
  "DiagonalTileIterator_loop m it =
     (let it' = DiagonalTileIterator_step m it
      in if \<not> IsValidTileIndex (it_tile it') \<and> b_max it' \<noteq> b_cur it'
         then DiagonalTileIterator_loop m it' else Some it')"

declare DiagonalTileIterator_loop.simps [code]

definition DiagonalTileIterator_next ::
  "DiagonalTileIterator \<Rightarrow> (error + DiagonalTileIterator) option" where
  "DiagonalTileIterator_next it =
     (if \<not> IsValidTileIndex (it_tile it) then Some (Inl AssertionFailed)
      else
        (case MapOf (it_tile it) of
           None \<Rightarrow> Some (Inl NullPointerDereference)
         | Some m \<Rightarrow>
             (case DiagonalTileIterator_loop m it of
                None \<Rightarrow> None
              | Some it' \<Rightarrow>
                  Some (Inr (if b_max it' = b_cur it'
                             then it'\<lparr>it_tile := (it_tile it')\<lparr>index := INVALID_TILE_INDEX\<rparr>\<rparr>
                             else it')))))"

text \<open>
  The values the iterator over an area takes: the one it is constructed with, and the
  one after \<^verbatim>\<open>operator++\<close> on a value whose tile is valid.
\<close>

inductive DiagonalTileIterator_takes :: "DiagonalTileArea \<Rightarrow> DiagonalTileIterator \<Rightarrow> bool" where
  constructed:
    "DiagonalTileIterator_of_area ta = Inr it \<Longrightarrow> DiagonalTileIterator_takes ta it"
| advanced:
    "DiagonalTileIterator_takes ta it \<Longrightarrow> IsValidTileIndex (it_tile it) \<Longrightarrow>
     DiagonalTileIterator_next it = Some (Inr it') \<Longrightarrow> DiagonalTileIterator_takes ta it'"

text \<open>
  What holds of every value of the iterator over an area \<open>ta\<close> of the map \<open>m\<close>: the rotated
  coordinates lie between zero and the extents, and \<^verbatim>\<open>a_cur\<close> never reaches its extent; and
  what holds when its tile is a tile of the map: the tile is the one the rotated
  coordinates stand for.
\<close>

definition rotated_within :: "int \<Rightarrow> int \<Rightarrow> bool" where
  "rotated_within c c_max = (if c_max > 0 then 0 \<le> c \<and> c \<le> c_max else c_max \<le> c \<and> c \<le> 0)"

definition iterator_of :: "Map \<Rightarrow> DiagonalTileArea \<Rightarrow> DiagonalTileIterator \<Rightarrow> bool" where
  "iterator_of m ta it =
     (MapOf (it_tile it) = Some m \<and>
      base_x it = TileX_generic m (diag_tile ta) \<and> base_y it = TileY_generic m (diag_tile ta) \<and>
      a_max it = diag_a ta \<and> b_max it = diag_b ta \<and>
      rotated_within (a_cur it) (a_max it) \<and> a_cur it \<noteq> a_max it \<and>
      rotated_within (b_cur it) (b_max it))"

definition iterator_at_tile :: "Map \<Rightarrow> DiagonalTileIterator \<Rightarrow> bool" where
  "iterator_at_tile m it =
     (tile_on m (it_tile it) \<and> even (a_cur it + b_cur it) \<and> b_cur it \<noteq> b_max it \<and>
      TileX_generic m (it_tile it) = base_x it + (a_cur it - b_cur it) div 2 \<and>
      TileY_generic m (it_tile it) = base_y it + (b_cur it + a_cur it) div 2)"

text \<open>
  What the constructor from two corners guarantees of an area: its base tile is on the
  map and its extents are not zero and fit \<^verbatim>\<open>int16\<close>.
\<close>

definition area_ok :: "Map \<Rightarrow> DiagonalTileArea \<Rightarrow> bool" where
  "area_ok m ta = (map_ok m \<and> tile_on m (diag_tile ta) \<and> diag_a ta \<noteq> 0 \<and> diag_b ta \<noteq> 0 \<and>
     \<bar>diag_a ta\<bar> \<le> 2 ^ 15 \<and> \<bar>diag_b ta\<bar> \<le> 2 ^ 15)"


text \<open>
  A worked example on the 8 x 8 map: the diagonal area between the corners (0, 0) and
  (0, 2), and the iterator over it at the tile (x, y) with the rotated coordinates a, b.
\<close>

definition corner_area :: DiagonalTileArea where
  "corner_area = \<lparr>diag_tile = TileXY_generic 0 0 clipboard_8, diag_a = 3, diag_b = 3\<rparr>"

definition corner_iterator :: "int \<Rightarrow> int \<Rightarrow> int \<Rightarrow> int \<Rightarrow> DiagonalTileIterator" where
  "corner_iterator x y a b =
     \<lparr>it_tile = TileXY_generic x y clipboard_8, base_x = 0, base_y = 0,
      a_cur = a, b_cur = b, a_max = 3, b_max = 3\<rparr>"


section \<open>Properties of the direction transformations\<close>

lemma IsValidDirTransform_cases:
  "IsValidDirTransform t \<Longrightarrow>
     t = 0 \<or> t = 1 \<or> t = 2 \<or> t = 3 \<or> t = 4 \<or> t = 5 \<or> t = 6 \<or> t = 7"
  unfolding IsValidDirTransform_def IsInsideMM_def DTR_BEGIN_def DTR_END_def by arith

text \<open>
  Claim C3. For each of the eight transformations \<open>t\<close>, combining \<open>t\<close> with
  \<open>InvertDirTransform t\<close> in either order gives the identity; \<open>InvertDirTransform\<close>
  leaves a reflection as it is and sends a pure rotation \<open>t\<close> to \<open>(- t) mod 4\<close>.
\<close>

theorem CombineDirTransform_InvertDirTransform:
  assumes "IsValidDirTransform t"
  shows "CombineDirTransform t (InvertDirTransform t) = DTR_IDENTITY \<and>
         CombineDirTransform (InvertDirTransform t) t = DTR_IDENTITY \<and>
         InvertDirTransform t =
           (if t AND DTR_REFLECTION_BIT \<noteq> 0 then t else (- t) mod 4)"
  using IsValidDirTransform_cases [OF assms]
  by (elim disjE)
     (simp_all add: CombineDirTransform_def InvertDirTransform_def DTR_IDENTITY_def
        DTR_ROTATION_MASK_def DTR_REFLECTION_BIT_def)

theorem CombineDirTransform_InvertDirTransform_witness:
  "IsValidDirTransform DTR_ROTATE_90_R \<and> IsValidDirTransform DTR_REFLECT_W_E \<and>
   InvertDirTransform DTR_ROTATE_90_R = DTR_ROTATE_90_L \<and>
   CombineDirTransform DTR_ROTATE_90_R DTR_ROTATE_90_L = DTR_IDENTITY \<and>
   CombineDirTransform DTR_ROTATE_90_L DTR_ROTATE_90_R = DTR_IDENTITY \<and>
   InvertDirTransform DTR_REFLECT_W_E = DTR_REFLECT_W_E \<and>
   CombineDirTransform DTR_REFLECT_W_E DTR_REFLECT_W_E = DTR_IDENTITY"
proof -
  have v1: "IsValidDirTransform DTR_ROTATE_90_R"
    by (simp add: IsValidDirTransform_def IsInsideMM_def DTR_BEGIN_def DTR_END_def
        DTR_ROTATE_90_R_def)
  have v2: "IsValidDirTransform DTR_REFLECT_W_E"
    by (simp add: IsValidDirTransform_def IsInsideMM_def DTR_BEGIN_def DTR_END_def
        DTR_REFLECT_W_E_def)
  have i1: "InvertDirTransform DTR_ROTATE_90_R = DTR_ROTATE_90_L"
    by (simp add: InvertDirTransform_def DTR_ROTATE_90_R_def DTR_ROTATE_90_L_def
        DTR_ROTATION_MASK_def DTR_REFLECTION_BIT_def)
  have i2: "InvertDirTransform DTR_REFLECT_W_E = DTR_REFLECT_W_E"
    by (simp add: InvertDirTransform_def DTR_REFLECT_W_E_def DTR_REFLECTION_BIT_def)
  show ?thesis
    using CombineDirTransform_InvertDirTransform [OF v1]
      CombineDirTransform_InvertDirTransform [OF v2] v1 v2 i1 i2
    by simp
qed

text \<open>
  The value \<^verbatim>\<open>TransformDir\<close> computes when assertions are compiled out: a reflection
  replaces \<open>d\<close> by \<open>2 - d\<close>, then \<open>2 * t\<close> is added modulo 8.
\<close>

lemma TransformDir_without_assert:
  "TransformDir False d t =
     Inr (((if t AND DTR_REFLECTION_BIT \<noteq> 0 then 2 - d else d) + 2 * t) mod 8)"
proof -
  have a: "to_uint v mod 8 = v mod 8" for v
  proof -
    have "(8::int) dvd 2 ^ 32" by simp
    then show ?thesis unfolding to_uint_def by (rule mod_mod_cancel)
  qed
  have b: "to_Direction (v mod 8) = v mod 8" for v
  proof -
    have "0 \<le> v mod 8" "v mod 8 < 8" by simp_all
    then show ?thesis unfolding to_Direction_def by simp
  qed
  have c: "(to_Direction v + w) mod 8 = (v + w) mod 8" for v w
  proof -
    have "(8::int) dvd 2 ^ 8" by simp
    then have "to_Direction v mod 8 = v mod 8"
      unfolding to_Direction_def by (rule mod_mod_cancel)
    then show ?thesis by (metis mod_add_left_eq)
  qed
  show ?thesis
    by (simp add: TransformDir_def ChangeDir_def Let_def a b c DIR_NE_def)
qed

text \<open>
  With assertions compiled out, transforming by \<open>a\<close> and then by \<open>b\<close> is transforming
  by \<open>CombineDirTransform a b\<close>, for every direction and every pair of transformations.
\<close>

lemma TransformDir_CombineDirTransform_without_assert:
  assumes "IsValidDirTransform a" and "IsValidDirTransform b"
  shows "and_then (TransformDir False d a) (\<lambda>d'. TransformDir False d' b) =
         TransformDir False d (CombineDirTransform a b)"
  using IsValidDirTransform_cases [OF assms(1)] IsValidDirTransform_cases [OF assms(2)]
  apply (elim disjE)
  apply (simp_all add: TransformDir_without_assert and_then_def CombineDirTransform_def
      DTR_REFLECTION_BIT_def DTR_ROTATION_MASK_def mod_simps)
  apply (simp_all add: add.commute)
  apply (simp_all add: mod_eq_dvd_iff)
  done

text \<open>
  Claim C4. The claim is that \<open>TransformDir (TransformDir d a) b\<close> equals
  \<open>TransformDir d (CombineDirTransform a b)\<close> for every valid direction. With assertions
  kept, the code does not get that far: reflecting \<^verbatim>\<open>DIR_SE\<close> computes
  \<^verbatim>\<open>(Direction)(2 * DIR_NE - 3)\<close>, which is 255, and \<^verbatim>\<open>ChangeDir\<close> then fails its own
  \<^verbatim>\<open>assert(IsValidDirection(d))\<close>, while the combined transformation (two equal
  reflections are the identity) returns \<^verbatim>\<open>DIR_SE\<close>.
\<close>

theorem TransformDir_reflection_fails_ChangeDir_assert:
  "and_then (TransformDir True DIR_SE DTR_REFLECT_NE_SW)
       (\<lambda>d'. TransformDir True d' DTR_REFLECT_NE_SW) = Inl AssertionFailed \<and>
   TransformDir True DIR_SE (CombineDirTransform DTR_REFLECT_NE_SW DTR_REFLECT_NE_SW) =
     Inr DIR_SE"
  by (simp add: TransformDir_def ChangeDir_def CombineDirTransform_def and_then_def
      IsValidDirection_def to_Direction_def to_uint_def Let_def DIR_SE_def DIR_NE_def
      DIR_END_def DTR_REFLECT_NE_SW_def DTR_REFLECTION_BIT_def DTR_ROTATION_MASK_def)

section \<open>Properties of TerraformTiles\<close>

lemma TerraformTiles_steps_returned_early:
  "TerraformTiles_steps env flags t h curh st = (ex, st') \<Longrightarrow> \<not> returned_early st \<Longrightarrow>
     returned_early st' = (ex = FunctionReturn) \<and>
     (returned_early st' \<longrightarrow> DC_EXEC \<in> flags \<and> available_money st' < 0)"
proof (induction env flags t h curh st arbitrary: ex st' rule: TerraformTiles_steps.induct)
  case (1 env flags t h curh st)
  note eq = "1.prems"(1)[unfolded TerraformTiles_steps.simps[of env flags t h curh st]]
  show ?case
  proof (cases "curh = h")
    case True
    with eq "1.prems"(2) show ?thesis by simp
  next
    case False
    obtain ret err_tile w1 where d1:
      "DoCommand_TERRAFORM_LAND env (world st) t SLOPE_N (if curh > h then 0 else 1) (flags - {DC_EXEC}) = (ret, err_tile, w1)"
      by (metis prod_cases3)
    show ?thesis
    proof (cases "Failed ret")
      case True
      with False d1 eq "1.prems"(2) show ?thesis by auto
    next
      case nf: False
      show ?thesis
      proof (cases "DC_EXEC \<in> flags")
        case ex: True
        show ?thesis
        proof (cases "available_money st - GetCost ret < 0")
          case True
          with False d1 nf ex eq "1.prems"(2) show ?thesis by auto
        next
          case enough: False
          obtain ret2 err_tile2 w2 where d2:
            "DoCommand_TERRAFORM_LAND env w1 t SLOPE_N (if curh > h then 0 else 1) flags = (ret2, err_tile2, w2)"
            by (metis prod_cases3)
          from eq False d1 nf ex enough d2 have r:
            "TerraformTiles_steps env flags t h (curh + (if curh > h then -1 else 1))
                         (st\<lparr>result := (result st)\<lparr>cost := cost (result st) + GetCost ret,
                                                    had_success := True\<rparr>,
                             available_money := available_money st - GetCost ret,
                             world := w2,
                             terraform_err_tile_global := err_tile2\<rparr>) = (ex, st')"
            by simp
          show ?thesis
            by (rule "1.IH"(1)[OF False d1[symmetric] refl nf ex enough d2[symmetric] refl r])
               (simp add: "1.prems"(2))
        qed
      next
        case nex: False
        show ?thesis
        proof (cases "limit st - 1 \<le> 0")
          case True
          with False d1 nf nex eq "1.prems"(2) show ?thesis by auto
        next
          case more: False
          from eq False d1 nf nex more have r:
            "TerraformTiles_steps env flags t h (curh + (if curh > h then -1 else 1))
                 (st\<lparr>result := (result st)\<lparr>cost := cost (result st) + GetCost ret,
                                            had_success := True\<rparr>,
                     limit := limit st - 1,
                     world := w1,
                     terraform_err_tile_global := err_tile\<rparr>) = (ex, st')"
            by simp
          show ?thesis
            by (rule "1.IH"(2)[OF False d1[symmetric] refl nf nex more r])
               (simp add: "1.prems"(2))
        qed
      qed
    qed
  qed
qed

lemma TerraformTiles_loop_returned_early:
  "\<not> returned_early st \<Longrightarrow> returned_early (TerraformTiles_loop env flags iter st) \<Longrightarrow>
     DC_EXEC \<in> flags \<and> available_money (TerraformTiles_loop env flags iter st) < 0"
proof (induction iter arbitrary: st)
  case Nil
  then show ?case by simp
next
  case (Cons i iter)
  show ?case
  proof (cases "limit st > 0")
    case False
    with Cons.prems show ?thesis by simp
  next
    case True
    obtain ex st' where s: "TerraformTiles_steps env flags (iter_tile env i)
                (GetTileTargetHeight env (world st) i)
                (TileHeight env (world st) (iter_tile env i)) st = (ex, st')"
      by (cases "TerraformTiles_steps env flags (iter_tile env i)
                (GetTileTargetHeight env (world st) i)
                (TileHeight env (world st) (iter_tile env i)) st") 
    note k = TerraformTiles_steps_returned_early[OF s Cons.prems(1)]
    show ?thesis
    proof (cases "ex = FunctionReturn")
      case True
      with s k \<open>limit st > 0\<close> show ?thesis by simp
    next
      case False
      with s \<open>limit st > 0\<close> have e: "TerraformTiles_loop env flags (i # iter) st = TerraformTiles_loop env flags iter st'"
        by (cases ex) simp_all
      from False k have "\<not> returned_early st'" by simp
      from Cons.IH[OF this] Cons.prems(2) e show ?thesis by simp
    qed
  qed
qed

text \<open>
  Claim C10, as stated: \<^verbatim>\<open>TerraformTiles\<close> never returns \<^verbatim>\<open>had_success == false\<close> together
  with \<^verbatim>\<open>last_error == STR_NULL\<close>. It does: with \<^verbatim>\<open>DC_EXEC\<close> set and no money available, the
  first step's test command succeeds at a cost of 10, the money left is negative, and
  the function leaves through \<^verbatim>\<open>return result\<close> before anything was recorded.
\<close>

theorem TerraformTiles_out_of_money_counterexample:
  "\<not> had_success (result (TerraformTiles raise_by_one_env [5] {DC_EXEC} 0 () INVALID_TILE 0)) \<and>
   last_error (result (TerraformTiles raise_by_one_env [5] {DC_EXEC} 0 () INVALID_TILE 0)) =
     STR_NULL"
  by (simp add: TerraformTiles_def raise_by_one_env_def TerraformTiles_limit_def INT32_MAX_def
      CommandCost_ok_def Failed_def Let_def)

text \<open>
  Claim C10, amended. Unless \<^verbatim>\<open>TerraformTiles\<close> leaves through the early return for
  insufficient money, a result without success carries an error: \<^verbatim>\<open>last_error\<close> is not
  \<^verbatim>\<open>STR_NULL\<close>. The early return is taken only with \<^verbatim>\<open>DC_EXEC\<close> set and the available
  money below zero.
\<close>

theorem TerraformTiles_error_unless_out_of_money:
  "(\<not> returned_early (TerraformTiles env iter flags money w e0 c0) \<and>
    \<not> had_success (result (TerraformTiles env iter flags money w e0 c0))
     \<longrightarrow> last_error (result (TerraformTiles env iter flags money w e0 c0)) \<noteq> STR_NULL) \<and>
   (returned_early (TerraformTiles env iter flags money w e0 c0)
     \<longrightarrow> DC_EXEC \<in> flags \<and> available_money (TerraformTiles env iter flags money w e0 c0) < 0)"
proof -
  define st0 where "st0 = \<lparr>result = \<lparr>cost = 0, had_success = False,
                            last_error = (if TerraformTiles_limit (GetIfValid_current_company env w) = 0 then STR_ERROR_TERRAFORM_LIMIT_REACHED
                                          else STR_NULL)\<rparr>,
                 last_err_tile = INVALID_TILE,
                 limit = TerraformTiles_limit (GetIfValid_current_company env w),
                 available_money = money,
                 world = w,
                 terraform_err_tile_global = e0,
                 additional_cash_required = c0,
                 returned_early = False\<rparr>"
  have n: "\<not> returned_early st0" by (simp add: st0_def)
  note l = TerraformTiles_loop_returned_early[OF n, of env flags iter]
  show ?thesis
    using l unfolding TerraformTiles_def Let_def st0_def[symmetric]
    by (auto split: if_splits)
qed


theorem TerraformTiles_error_unless_out_of_money_witness:
  "\<not> returned_early (TerraformTiles raise_by_one_env [] {DC_EXEC} 0 () INVALID_TILE 0) \<and>
   \<not> had_success (result (TerraformTiles raise_by_one_env [] {DC_EXEC} 0 () INVALID_TILE 0)) \<and>
   last_error (result (TerraformTiles raise_by_one_env [] {DC_EXEC} 0 () INVALID_TILE 0)) \<noteq>
     STR_NULL \<and>
   returned_early (TerraformTiles raise_by_one_env [5] {DC_EXEC} 0 () INVALID_TILE 0) \<and>
   DC_EXEC \<in> {DC_EXEC} \<and>
   available_money (TerraformTiles raise_by_one_env [5] {DC_EXEC} 0 () INVALID_TILE 0) < 0"
proof -
  have a: "\<not> returned_early (TerraformTiles raise_by_one_env [] {DC_EXEC} 0 () INVALID_TILE 0) \<and>
           \<not> had_success (result (TerraformTiles raise_by_one_env [] {DC_EXEC} 0 () INVALID_TILE 0))"
    by (simp add: TerraformTiles_def raise_by_one_env_def TerraformTiles_limit_def INT32_MAX_def
        Let_def)
  have b: "returned_early (TerraformTiles raise_by_one_env [5] {DC_EXEC} 0 () INVALID_TILE 0)"
    by (simp add: TerraformTiles_def raise_by_one_env_def TerraformTiles_limit_def INT32_MAX_def
        CommandCost_ok_def Failed_def Let_def)
  show ?thesis
    using a b
      TerraformTiles_error_unless_out_of_money
        [of raise_by_one_env "[]" "{DC_EXEC}" 0 "()" INVALID_TILE 0]
      TerraformTiles_error_unless_out_of_money
        [of raise_by_one_env "[5]" "{DC_EXEC}" 0 "()" INVALID_TILE 0]
    by blast
qed

section \<open>Properties of the terraform command\<close>

declare TerraformTileHeight.simps [simp del] TerraformTileHeight_neighbours.simps [simp del]



lemma TerraformAddDirtyTileAround_heights:
  "tile_to_new_height (TerraformAddDirtyTileAround g ts tile) = tile_to_new_height ts"
  by (simp add: TerraformAddDirtyTileAround_def TerraformAddDirtyTile_def Let_def)

lemma TerraformTileHeight_Suc:
  "TerraformTileHeight (Suc fuel) g hts ts e tile h =
     (if TerraformTileHeight_stores g hts ts tile h then
        TerraformTileHeight_neighbours fuel g hts
          (TerraformSetHeightOfTile (TerraformAddDirtyTileAround g ts tile) tile h)
          e tile tile h (AddCost_Money (CommandCost_ok 0) (price_PR_TERRAFORM g)) terraform_tilepos
      else if \<not> tile < MapSize g then Some (Inl AssertionFailed)
      else Some (Inr (if h < 0 then return_cmd_error STR_ERROR_ALREADY_AT_SEA_LEVEL
                      else if h > max_heightlevel g then return_cmd_error STR_ERROR_TOO_HIGH
                      else if h = TerraformGetHeightOfTile hts ts tile then CMD_ERROR
                      else return_cmd_error STR_ERROR_TOO_CLOSE_TO_EDGE_OF_MAP,
                  ts,
                  if h < 0 \<or> h > max_heightlevel g \<or> h = TerraformGetHeightOfTile hts ts tile then e
                  else TileXY g (if TileX g tile = 1 then 0 else TileX g tile)
                             (if TileY g tile = 1 then 0 else TileY g tile))))"
  unfolding TerraformTileHeight_stores_def
  by (simp add: TerraformTileHeight.simps)

lemma TerraformTileHeight_neighbours_Nil:
  "TerraformTileHeight_neighbours fuel g hts ts e orig tile h tc [] = Some (Inr (tc, ts, e))"
  by (simp add: TerraformTileHeight_neighbours.simps)

lemma TerraformTileHeight_neighbours_Cons:
  "TerraformTileHeight_neighbours fuel g hts ts e orig tile h tc (ttm # ttms) =
     (if neighbour_skipped g hts ts orig (tile_add tile (ToTileIndexDiff g ttm)) h then
        TerraformTileHeight_neighbours fuel g hts ts e orig (tile_add tile (ToTileIndexDiff g ttm)) h tc ttms
      else
        (case TerraformTileHeight fuel g hts ts e (tile_add tile (ToTileIndexDiff g ttm))
                (TerraformGetHeightOfTile hts ts (tile_add tile (ToTileIndexDiff g ttm)) +
                 (h - TerraformGetHeightOfTile hts ts (tile_add tile (ToTileIndexDiff g ttm)) +
                  (if h - TerraformGetHeightOfTile hts ts (tile_add tile (ToTileIndexDiff g ttm)) < 0
                   then 1 else -1))) of
           None \<Rightarrow> None
         | Some (Inl e) \<Rightarrow> Some (Inl e)
         | Some (Inr (cst, ts', err_tile')) \<Rightarrow>
             if Failed cst then Some (Inr (cst, ts', err_tile'))
             else TerraformTileHeight_neighbours fuel g hts ts' err_tile' orig
                    (tile_add tile (ToTileIndexDiff g ttm)) h (AddCost tc cst) ttms))"
  unfolding neighbour_skipped_def
  by (simp add: TerraformTileHeight_neighbours.simps Let_def)





lemma AddCost_success: "success a \<Longrightarrow> \<not> Failed b \<Longrightarrow> success (AddCost a b)"
  by (simp add: AddCost_def Failed_def Let_def)

lemma CmdTerraformLand_corners_success:
  "CmdTerraformLand_corners fuel g hts direction cs acc = Some (Inr (Continues (tc, ts, e))) \<Longrightarrow>
   success (fst acc) \<Longrightarrow> success tc"
proof (induction fuel g hts direction cs acc rule: CmdTerraformLand_corners.induct)
  case (1 fuel g hts direction acc)
  then show ?case by auto
next
  case (2 fuel g hts direction enabled t rest total_cost ts0 err_tile)
  show ?case
  proof (cases enabled)
    case False
    with 2 show ?thesis by simp
  next
    case True
    from "2.prems"(1) True obtain cst ts' e' where
      r: "TerraformTileHeight fuel g hts ts0 err_tile t (hts t + direction) = Some (Inr (cst, ts', e'))"
      by (auto split: option.splits sum.splits)
    with "2.prems"(1) True have nf: "\<not> Failed cst" by (auto split: if_splits)
    with "2.prems"(1) True r have
      "CmdTerraformLand_corners fuel g hts direction rest (AddCost total_cost cst, ts', e') = Some (Inr (Continues (tc, ts, e)))"
      by simp
    moreover have "success (AddCost total_cost cst)"
      using "2.prems"(2) nf by (simp add: AddCost_success)
    ultimately show ?thesis
      using "2.IH"(2)[OF _ r refl refl refl nf] True by simp
  qed
qed

lemma CmdTerraformLand_tile_Continues_success:
  "CmdTerraformLand_tile g hooks hts flags direction ts pass tile = Inr (Continues (Some cst)) \<Longrightarrow>
   \<not> Failed cst"
  unfolding CmdTerraformLand_tile_def Let_def
  by (auto split: if_splits)

lemma CmdTerraformLand_pass_success:
  "CmdTerraformLand_pass g hooks hts flags direction ts pass tiles total_cost = Inr (Continues tc) \<Longrightarrow>
   success total_cost \<Longrightarrow> success tc"
proof (induction tiles arbitrary: total_cost)
  case Nil
  then show ?case by simp
next
  case (Cons tile tiles)
  from Cons.prems(1) show ?case
  proof (cases "CmdTerraformLand_tile g hooks hts flags direction ts pass tile")
    case (Inl e)
    with Cons.prems(1) show ?thesis by simp
  next
    case (Inr f)
    show ?thesis
    proof (cases f)
      case (Returns c)
      with Inr Cons.prems(1) show ?thesis by simp
    next
      case (Continues co)
      show ?thesis
      proof (cases co)
        case None
        with Inr Continues Cons show ?thesis by simp
      next
        case (Some cst)
        with Inr Continues have "\<not> Failed cst"
          by (auto dest: CmdTerraformLand_tile_Continues_success)
        with Cons.prems(2) have "success (if pass = 1 then AddCost total_cost cst else total_cost)"
          by (simp add: AddCost_success)
        with Inr Continues Some Cons.prems(1) Cons.IH show ?thesis by simp
      qed
    qed
  qed
qed

lemma CmdTerraformLand_validate_success:
  "CmdTerraformLand_validate g hooks hts flags direction ts total_cost = Inr (Continues tc) \<Longrightarrow>
   success total_cost \<Longrightarrow> success tc"
  unfolding CmdTerraformLand_validate_def
  by (auto split: sum.splits flow.splits dest: CmdTerraformLand_pass_success)

lemma CmdTerraformLand_collect_success:
  "CmdTerraformLand_collect fuel g hts tile p1 direction = Some (Inr (Continues (tc, ts, e))) \<Longrightarrow>
   success tc"
  unfolding CmdTerraformLand_collect_def
  by (drule CmdTerraformLand_corners_success) (simp_all add: CommandCost_ok_def)

text \<open>
  Where a failure comes from. A corner, a tile of a validation pass and the validation as
  a whole return only failed costs; a pass returns the failure of the first tile that
  reports one.
\<close>

lemma CmdTerraformLand_corners_Returns_Failed:
  "CmdTerraformLand_corners fuel g hts direction cs acc = Some (Inr (Returns (cst, t))) \<Longrightarrow>
   Failed cst"
proof (induction cs arbitrary: acc)
  case Nil
  then show ?case by simp
next
  case (Cons c cs)
  obtain enabled u where c: "c = (enabled, u)" by (cases c)
  obtain total_cost ts err_tile where acc: "acc = (total_cost, ts, err_tile)" by (cases acc)
  show ?case
  proof (cases enabled)
    case False
    with Cons c acc show ?thesis by simp
  next
    case True
    with Cons.prems c acc Cons.IH show ?thesis
      by (auto split: option.splits sum.splits if_splits)
  qed
qed

lemma CmdTerraformLand_tile_Returns_Failed:
  "CmdTerraformLand_tile g hooks hts flags direction ts pass tile = Inr (Returns cst) \<Longrightarrow>
   Failed cst"
  unfolding CmdTerraformLand_tile_def Let_def
  by (auto simp add: Failed_def return_cmd_error_def split: if_splits)

lemma CmdTerraformLand_pass_Returns:
  "CmdTerraformLand_pass g hooks hts flags direction ts pass tiles total_cost = Inr (Returns (cst, t)) \<Longrightarrow>
   Failed cst \<and> t \<in> set tiles \<and>
   CmdTerraformLand_tile g hooks hts flags direction ts pass t = Inr (Returns cst)"
proof (induction tiles arbitrary: total_cost)
  case Nil
  then show ?case by simp
next
  case (Cons tile tiles)
  show ?case
  proof (cases "CmdTerraformLand_tile g hooks hts flags direction ts pass tile")
    case (Inl e)
    with Cons.prems show ?thesis by simp
  next
    case (Inr f)
    show ?thesis
    proof (cases f)
      case (Returns c)
      with Inr Cons.prems have "c = cst" "tile = t" by simp_all
      with Inr Returns show ?thesis
        by (auto dest: CmdTerraformLand_tile_Returns_Failed)
    next
      case (Continues co)
      with Inr Cons.prems Cons.IH show ?thesis by (cases co) auto
    qed
  qed
qed

lemma CmdTerraformLand_pass_first_failure:
  assumes "\<forall>u\<in>set pre. \<exists>c. CmdTerraformLand_tile g hooks hts flags direction ts pass u = Inr (Continues c)"
    and "CmdTerraformLand_tile g hooks hts flags direction ts pass t = Inr (Returns cst)"
  shows "CmdTerraformLand_pass g hooks hts flags direction ts pass (pre @ t # post) total_cost =
           Inr (Returns (cst, t))"
  using assms(1)
proof (induction pre arbitrary: total_cost)
  case Nil
  then show ?case using assms(2) by simp
next
  case (Cons u pre)
  from Cons.prems obtain c where
    c: "CmdTerraformLand_tile g hooks hts flags direction ts pass u = Inr (Continues c)"
    by auto
  from Cons.prems have
    "\<forall>u\<in>set pre. \<exists>c. CmdTerraformLand_tile g hooks hts flags direction ts pass u = Inr (Continues c)"
    by simp
  from Cons.IH[OF this] c show ?case by (cases c) simp_all
qed

lemma CmdTerraformLand_validate_Returns_Failed:
  "CmdTerraformLand_validate g hooks hts flags direction ts total_cost = Inr (Returns (cst, t)) \<Longrightarrow>
   Failed cst"
  unfolding CmdTerraformLand_validate_def
  by (auto split: sum.splits flow.splits dest: CmdTerraformLand_pass_Returns)

lemma CmdTerraformLand_failure_unchanged:
  assumes "CmdTerraformLand fuel g hooks w tile flags p1 p2 = Some (Inr (cst, w'))"
    and "Failed cst"
  shows "tile_height w' = tile_height w \<and> current_company w' = current_company w"
proof -
  let ?d = "if p2 \<noteq> 0 then 1 else (-1::int)"
  show ?thesis
  proof (cases "CmdTerraformLand_collect fuel g (tile_height w) tile p1 ?d")
    case None
    with assms(1) show ?thesis by (simp add: CmdTerraformLand_def Let_def)
  next
    case (Some r)
    show ?thesis
    proof (cases r)
      case (Inl e)
      with Some assms(1) show ?thesis by (simp add: CmdTerraformLand_def Let_def)
    next
      case (Inr f)
      show ?thesis
      proof (cases f)
        case (Returns x)
        with Some Inr assms(1) show ?thesis
          by (cases x) (auto simp add: CmdTerraformLand_def Let_def)
      next
        case (Continues x)
        obtain tc ts e where x: "x = (tc, ts, e)" by (cases x)
        have stc: "success tc"
          using Some Inr Continues x by (auto dest: CmdTerraformLand_collect_success)
        show ?thesis
        proof (cases "CmdTerraformLand_validate g hooks (tile_height w) flags ?d ts tc")
          case (Inl e)
          with Some Inr Continues x assms(1) show ?thesis
            by (simp add: CmdTerraformLand_def Let_def)
        next
          case vr: (Inr f2)
          show ?thesis
          proof (cases f2)
            case (Returns y)
            with Some Inr Continues x vr assms(1) show ?thesis
              by (cases y) (auto simp add: CmdTerraformLand_def Let_def)
          next
            case c2: (Continues tc1)
            have "success tc1"
              using vr c2 stc by (auto dest: CmdTerraformLand_validate_success)
            with Some Inr Continues x vr c2 assms show ?thesis
              by (auto simp add: CmdTerraformLand_def Let_def Failed_def split: if_splits)
          qed
        qed
      qed
    qed
  qed
qed

text \<open>
  Claim C2. A failure reported before the \<^verbatim>\<open>DC_EXEC\<close> block is what \<^verbatim>\<open>CmdTerraformLand\<close>
  returns, and it leaves the game state as it was but for \<^verbatim>\<open>_terraform_err_tile\<close>:
  \<^item> a failure of \<^verbatim>\<open>TerraformTileHeight\<close> for a corner (where the too-close-to-edge check
    is made);
  \<^item> in pass 0, the failure of the first dirty tile whose bridge check, tunnel check,
    clear command or terraform hook fails (the tiles before it having passed);
  \<^item> any failure of the validation loop, in either pass;
  \<^item> the terraform-limit error, when validation went through and the limit is reached.

  And whenever \<^verbatim>\<open>CmdTerraformLand\<close> returns a failure, the stored tile heights and the
  company's terraform limit are what they were before the call: \<^verbatim>\<open>SetTileHeight\<close> is
  called in the \<^verbatim>\<open>DC_EXEC\<close> block only.
\<close>

theorem CmdTerraformLand_failure_keeps_heights:
  "(CmdTerraformLand_collect fuel g (tile_height w) tile p1 (if p2 \<noteq> 0 then 1 else -1) =
      Some (Inr (Returns (cst, t))) \<longrightarrow>
    Failed cst \<and>
    CmdTerraformLand fuel g hooks w tile flags p1 p2 =
      Some (Inr (cst, w\<lparr>terraform_err_tile := t\<rparr>))) \<and>
   (CmdTerraformLand_collect fuel g (tile_height w) tile p1 (if p2 \<noteq> 0 then 1 else -1) =
      Some (Inr (Continues (total_cost, ts, err_tile))) \<longrightarrow>
    (dirty_tiles ts = pre @ t # post \<and>
     (\<forall>u\<in>set pre. \<exists>c. CmdTerraformLand_tile g hooks (tile_height w) flags
                           (if p2 \<noteq> 0 then 1 else -1) ts 0 u = Inr (Continues c)) \<and>
     CmdTerraformLand_tile g hooks (tile_height w) flags (if p2 \<noteq> 0 then 1 else -1) ts 0 t =
       Inr (Returns cst) \<longrightarrow>
     Failed cst \<and>
     CmdTerraformLand fuel g hooks w tile flags p1 p2 =
       Some (Inr (cst, w\<lparr>terraform_err_tile := t\<rparr>))) \<and>
    (CmdTerraformLand_validate g hooks (tile_height w) flags (if p2 \<noteq> 0 then 1 else -1) ts
       total_cost = Inr (Returns (cst, t)) \<longrightarrow>
     Failed cst \<and>
     CmdTerraformLand fuel g hooks w tile flags p1 p2 =
       Some (Inr (cst, w\<lparr>terraform_err_tile := t\<rparr>))) \<and>
    (CmdTerraformLand_validate g hooks (tile_height w) flags (if p2 \<noteq> 0 then 1 else -1) ts
       total_cost = Inr (Continues total_cost1) \<and>
     terraform_limit_reached (current_company w) ts \<longrightarrow>
     CmdTerraformLand fuel g hooks w tile flags p1 p2 =
       Some (Inr (return_cmd_error STR_ERROR_TERRAFORM_LIMIT_REACHED,
                  w\<lparr>terraform_err_tile := err_tile\<rparr>)))) \<and>
   (CmdTerraformLand fuel g hooks w tile flags p1 p2 = Some (Inr (cst', w')) \<and> Failed cst' \<longrightarrow>
    tile_height w' = tile_height w \<and> current_company w' = current_company w)"
proof (intro conjI impI)
  assume col: "CmdTerraformLand_collect fuel g (tile_height w) tile p1 (if p2 \<noteq> 0 then 1 else -1) =
      Some (Inr (Returns (cst, t)))"
  then show "Failed cst"
    unfolding CmdTerraformLand_collect_def by (rule CmdTerraformLand_corners_Returns_Failed)
  show "CmdTerraformLand fuel g hooks w tile flags p1 p2 =
      Some (Inr (cst, w\<lparr>terraform_err_tile := t\<rparr>))"
    using col by (simp add: CmdTerraformLand_def Let_def)
next
  assume col: "CmdTerraformLand_collect fuel g (tile_height w) tile p1 (if p2 \<noteq> 0 then 1 else -1) =
      Some (Inr (Continues (total_cost, ts, err_tile)))"
    and pre: "dirty_tiles ts = pre @ t # post \<and>
     (\<forall>u\<in>set pre. \<exists>c. CmdTerraformLand_tile g hooks (tile_height w) flags
                           (if p2 \<noteq> 0 then 1 else -1) ts 0 u = Inr (Continues c)) \<and>
     CmdTerraformLand_tile g hooks (tile_height w) flags (if p2 \<noteq> 0 then 1 else -1) ts 0 t =
       Inr (Returns cst)"
  from pre show "Failed cst" by (auto dest: CmdTerraformLand_tile_Returns_Failed)
  have "CmdTerraformLand_pass g hooks (tile_height w) flags (if p2 \<noteq> 0 then 1 else -1) ts 0
          (dirty_tiles ts) total_cost = Inr (Returns (cst, t))"
    using pre CmdTerraformLand_pass_first_failure[of pre g hooks "tile_height w" flags
        "if p2 \<noteq> 0 then 1 else -1" ts 0 t cst post total_cost]
    by simp
  then have "CmdTerraformLand_validate g hooks (tile_height w) flags (if p2 \<noteq> 0 then 1 else -1) ts
       total_cost = Inr (Returns (cst, t))"
    by (simp add: CmdTerraformLand_validate_def)
  then show "CmdTerraformLand fuel g hooks w tile flags p1 p2 =
       Some (Inr (cst, w\<lparr>terraform_err_tile := t\<rparr>))"
    using col by (simp add: CmdTerraformLand_def Let_def)
next
  assume col: "CmdTerraformLand_collect fuel g (tile_height w) tile p1 (if p2 \<noteq> 0 then 1 else -1) =
      Some (Inr (Continues (total_cost, ts, err_tile)))"
    and val: "CmdTerraformLand_validate g hooks (tile_height w) flags (if p2 \<noteq> 0 then 1 else -1) ts
       total_cost = Inr (Returns (cst, t))"
  from val show "Failed cst" by (rule CmdTerraformLand_validate_Returns_Failed)
  show "CmdTerraformLand fuel g hooks w tile flags p1 p2 =
       Some (Inr (cst, w\<lparr>terraform_err_tile := t\<rparr>))"
    using col val by (simp add: CmdTerraformLand_def Let_def)
next
  assume col: "CmdTerraformLand_collect fuel g (tile_height w) tile p1 (if p2 \<noteq> 0 then 1 else -1) =
      Some (Inr (Continues (total_cost, ts, err_tile)))"
    and val: "CmdTerraformLand_validate g hooks (tile_height w) flags (if p2 \<noteq> 0 then 1 else -1) ts
       total_cost = Inr (Continues total_cost1) \<and>
     terraform_limit_reached (current_company w) ts"
  show "CmdTerraformLand fuel g hooks w tile flags p1 p2 =
       Some (Inr (return_cmd_error STR_ERROR_TERRAFORM_LIMIT_REACHED,
                  w\<lparr>terraform_err_tile := err_tile\<rparr>))"
    using col val by (simp add: CmdTerraformLand_def Let_def)
next
  assume r: "CmdTerraformLand fuel g hooks w tile flags p1 p2 = Some (Inr (cst', w')) \<and> Failed cst'"
  then show "tile_height w' = tile_height w" "current_company w' = current_company w"
    using CmdTerraformLand_failure_unchanged[of fuel g hooks w tile flags p1 p2 cst' w'] by simp_all
qed

text \<open>
  On the 16 x 16 map, raising the corner (5, 5) with a bridge of height 1 above the tile
  (4, 4): the tiles 52, 53 and 67 pass, tile 68 fails the bridge check of pass 0, and the
  command returns that failure with all heights and the limit unchanged.
\<close>

theorem CmdTerraformLand_failure_keeps_heights_witness:
  "CmdTerraformLand_collect 3 small_game (tile_height (hill_world 0x50000)) 85 SLOPE_N
       (if (1::int) \<noteq> 0 then 1 else -1) =
     Some (Inr (Continues (CommandCost_ok 500,
        \<lparr>dirty_tiles = [52, 53, 67, 68, 69, 70, 83, 84, 85, 86, 100, 101],
         tile_to_new_height = [(85, 2), (86, 1), (84, 1), (101, 1), (69, 1)]\<rparr>, INVALID_TILE))) \<and>
   CmdTerraformLand_tile small_game bridge_hooks (tile_height (hill_world 0x50000)) {DC_EXEC}
       (if (1::int) \<noteq> 0 then 1 else -1)
       \<lparr>dirty_tiles = [52, 53, 67, 68, 69, 70, 83, 84, 85, 86, 100, 101],
        tile_to_new_height = [(85, 2), (86, 1), (84, 1), (101, 1), (69, 1)]\<rparr> 0 52 =
     Inr (Continues (Some (CommandCost_ok 0))) \<and>
   CmdTerraformLand_tile small_game bridge_hooks (tile_height (hill_world 0x50000)) {DC_EXEC}
       (if (1::int) \<noteq> 0 then 1 else -1)
       \<lparr>dirty_tiles = [52, 53, 67, 68, 69, 70, 83, 84, 85, 86, 100, 101],
        tile_to_new_height = [(85, 2), (86, 1), (84, 1), (101, 1), (69, 1)]\<rparr> 0 53 =
     Inr (Continues (Some (CommandCost_ok 0))) \<and>
   CmdTerraformLand_tile small_game bridge_hooks (tile_height (hill_world 0x50000)) {DC_EXEC}
       (if (1::int) \<noteq> 0 then 1 else -1)
       \<lparr>dirty_tiles = [52, 53, 67, 68, 69, 70, 83, 84, 85, 86, 100, 101],
        tile_to_new_height = [(85, 2), (86, 1), (84, 1), (101, 1), (69, 1)]\<rparr> 0 67 =
     Inr (Continues (Some (CommandCost_ok 0))) \<and>
   CmdTerraformLand_tile small_game bridge_hooks (tile_height (hill_world 0x50000)) {DC_EXEC}
       (if (1::int) \<noteq> 0 then 1 else -1)
       \<lparr>dirty_tiles = [52, 53, 67, 68, 69, 70, 83, 84, 85, 86, 100, 101],
        tile_to_new_height = [(85, 2), (86, 1), (84, 1), (101, 1), (69, 1)]\<rparr> 0 68 =
     Inr (Returns (return_cmd_error STR_ERROR_MUST_DEMOLISH_BRIDGE_FIRST)) \<and>
   Failed (return_cmd_error STR_ERROR_MUST_DEMOLISH_BRIDGE_FIRST) \<and>
   CmdTerraformLand 3 small_game bridge_hooks (hill_world 0x50000) 85 {DC_EXEC} SLOPE_N 1 =
     Some (Inr (return_cmd_error STR_ERROR_MUST_DEMOLISH_BRIDGE_FIRST,
                (hill_world 0x50000)\<lparr>terraform_err_tile := 68\<rparr>)) \<and>
   tile_height ((hill_world 0x50000)\<lparr>terraform_err_tile := 68\<rparr>) =
     tile_height (hill_world 0x50000) \<and>
   current_company ((hill_world 0x50000)\<lparr>terraform_err_tile := 68\<rparr>) =
     current_company (hill_world 0x50000)"
proof -
  define ts where "ts = \<lparr>dirty_tiles = [52, 53, 67, 68, 69, 70, 83, 84, 85, 86, 100, 101],
         tile_to_new_height = [(85, 2), (86, 1), (84, 1), (101, 1), (69, 1::int)]\<rparr>"
  define hw where "hw = hill_world 0x50000"
  define d where "d = (if (1::int) \<noteq> 0 then 1 else (-1::int))"
  have col: "CmdTerraformLand_collect 3 small_game (tile_height hw) 85 SLOPE_N d =
     Some (Inr (Continues (CommandCost_ok 500, ts, INVALID_TILE)))"
    unfolding ts_def hw_def d_def by code_simp
  have t52: "CmdTerraformLand_tile small_game bridge_hooks (tile_height hw) {DC_EXEC} d ts 0 52 =
     Inr (Continues (Some (CommandCost_ok 0)))"
    unfolding ts_def hw_def d_def by code_simp
  have t53: "CmdTerraformLand_tile small_game bridge_hooks (tile_height hw) {DC_EXEC} d ts 0 53 =
     Inr (Continues (Some (CommandCost_ok 0)))"
    unfolding ts_def hw_def d_def by code_simp
  have t67: "CmdTerraformLand_tile small_game bridge_hooks (tile_height hw) {DC_EXEC} d ts 0 67 =
     Inr (Continues (Some (CommandCost_ok 0)))"
    unfolding ts_def hw_def d_def by code_simp
  have t68: "CmdTerraformLand_tile small_game bridge_hooks (tile_height hw) {DC_EXEC} d ts 0 68 =
     Inr (Returns (return_cmd_error STR_ERROR_MUST_DEMOLISH_BRIDGE_FIRST))"
    unfolding ts_def hw_def d_def by code_simp
  have dt: "dirty_tiles ts = [52, 53, 67] @ 68 # [69, 70, 83, 84, 85, 86, 100, 101]"
    by (simp add: ts_def)
  have pre: "\<forall>u\<in>set [52, 53, 67]. \<exists>c. CmdTerraformLand_tile small_game bridge_hooks
               (tile_height hw) {DC_EXEC} d ts 0 u = Inr (Continues c)"
    using t52 t53 t67 by simp
  note T = CmdTerraformLand_failure_keeps_heights[where fuel = 3 and g = small_game
      and w = hw and tile = 85 and ?p1.0 = SLOPE_N and ?p2.0 = 1 and hooks = bridge_hooks
      and flags = "{DC_EXEC}" and total_cost = "CommandCost_ok 500" and ts = ts
      and err_tile = INVALID_TILE and pre = "[52, 53, 67]" and t = 68
      and post = "[69, 70, 83, 84, 85, 86, 100, 101]"
      and cst = "return_cmd_error STR_ERROR_MUST_DEMOLISH_BRIDGE_FIRST"
      and cst' = "return_cmd_error STR_ERROR_MUST_DEMOLISH_BRIDGE_FIRST"
      and w' = "hw\<lparr>terraform_err_tile := 68\<rparr>", folded d_def]
  have r: "Failed (return_cmd_error STR_ERROR_MUST_DEMOLISH_BRIDGE_FIRST) \<and>
     CmdTerraformLand 3 small_game bridge_hooks hw 85 {DC_EXEC} SLOPE_N 1 =
       Some (Inr (return_cmd_error STR_ERROR_MUST_DEMOLISH_BRIDGE_FIRST,
                  hw\<lparr>terraform_err_tile := 68\<rparr>))"
    using T col dt pre t68 by blast
  then have u: "tile_height (hw\<lparr>terraform_err_tile := 68\<rparr>) = tile_height hw \<and>
     current_company (hw\<lparr>terraform_err_tile := 68\<rparr>) = current_company hw"
    using T by blast
  show ?thesis
    using col t52 t53 t67 t68 r u unfolding ts_def hw_def d_def by blast
qed













text \<open>
  Heights during the collection. A command moves corners in one direction \<open>d\<close>; on valid
  heights every call of \<^verbatim>\<open>TerraformTileHeight\<close> is for the stored height moved by \<open>d\<close>.
\<close>

lemma adjacent_sym: "adjacent g a b \<Longrightarrow> adjacent g b a"
  by (auto simp add: adjacent_def)

lemma heights_validD:
  "heights_valid g hts \<Longrightarrow> adjacent g a b \<Longrightarrow> \<bar>hts a - hts b\<bar> \<le> 1"
  by (auto simp add: heights_valid_def adjacent_def)

lemma heights_valid_range:
  "heights_valid g hts \<Longrightarrow> 0 \<le> a \<Longrightarrow> a < MapSize g \<Longrightarrow> 0 \<le> hts a \<and> hts a \<le> max_heightlevel g"
  by (auto simp add: heights_valid_def)

lemma new_heights_ok_Get:
  assumes "new_heights_ok g d hts ts"
  shows "TerraformGetHeightOfTile hts ts t =
           (if t \<in> fst ` set (tile_to_new_height ts) then hts t + d else hts t)"
proof (cases "t \<in> fst ` set (tile_to_new_height ts)")
  case True
  then obtain v where v: "(t, v) \<in> set (tile_to_new_height ts)" by auto
  with assms have "map_of (tile_to_new_height ts) t = Some v" "v = hts t + d"
    by (auto simp add: new_heights_ok_def)
  with True show ?thesis by (simp add: TerraformGetHeightOfTile_def)
next
  case False
  then have "map_of (tile_to_new_height ts) t = None" by (simp add: map_of_eq_None_iff)
  with False show ?thesis by (simp add: TerraformGetHeightOfTile_def)
qed

lemma store_new_height:
  assumes ok: "new_heights_ok g d hts ts" and st: "TerraformTileHeight_stores g hts ts c h"
    and c0: "0 \<le> c" and h: "h = hts c + d" 
  shows "c \<notin> fst ` set (tile_to_new_height ts)"
    and "tile_to_new_height (TerraformSetHeightOfTile (TerraformAddDirtyTileAround g ts c) c h) =
           tile_to_new_height ts @ [(c, h)]"
    and "new_heights_ok g d hts (TerraformSetHeightOfTile (TerraformAddDirtyTileAround g ts c) c h)"
proof -
  show n: "c \<notin> fst ` set (tile_to_new_height ts)"
  proof
    assume "c \<in> fst ` set (tile_to_new_height ts)"
    then have "TerraformGetHeightOfTile hts ts c = hts c + d"
      using new_heights_ok_Get[OF ok, of c] by simp
    then have "\<not> TerraformTileHeight_stores g hts ts c h"
      using h by (simp add: TerraformTileHeight_stores_def)
    with st show False by simp
  qed
  show e: "tile_to_new_height (TerraformSetHeightOfTile (TerraformAddDirtyTileAround g ts c) c h) =
           tile_to_new_height ts @ [(c, h)]"
    using n by (simp add: TerraformSetHeightOfTile_def TerraformAddDirtyTileAround_heights map_assign_def)
  show "new_heights_ok g d hts (TerraformSetHeightOfTile (TerraformAddDirtyTileAround g ts c) c h)"
    using ok n st c0 h unfolding new_heights_ok_def e
    by (auto simp add: TerraformTileHeight_stores_def)
qed

lemma pending_store:
  assumes hv: "heights_valid g hts"
    and e: "fst ` set (tile_to_new_height ts1) = insert c (fst ` set (tile_to_new_height ts))"
  shows "pending g d hts ts1 \<subseteq> pending g d hts ts \<union> {(c, n) | n. adjacent g c n}"
  using e by (auto simp add: pending_def)

lemma CMD_ERROR_Failed: "Failed CMD_ERROR" "Failed (return_cmd_error s)"
  by (simp_all add: Failed_def CMD_ERROR_def return_cmd_error_def)

lemma tile_add_nonneg: "0 \<le> tile_add t diff"
  by (simp add: tile_add_def to_uint_def)

lemma retarget_height:
  assumes d: "d = 1 \<or> d = -1" and v: "\<bar>hc - hn\<bar> \<le> (1::int)" and far: "\<bar>(hc + d) - hn\<bar> > 1"
  shows "hn + ((hc + d) - hn + (if (hc + d) - hn < 0 then 1 else -1)) = hn + d"
    and "hn + d = (hc + d) - d"
  using assms by auto

lemma TerraformTileHeight_neighbours_post:
  assumes hv: "heights_valid g hts" and d: "d = 1 \<or> d = -1"
    and tth: "\<And>ts e n. new_heights_ok g d hts ts \<Longrightarrow> 0 \<le> n \<Longrightarrow> n < MapSize g \<Longrightarrow>
        hts n + d = h - d \<Longrightarrow>
        \<exists>res. TerraformTileHeight fuel g hts ts e n (hts n + d) = Some res \<and>
          (\<forall>cst ts' e'. res = Inr (cst, ts', e') \<longrightarrow> \<not> Failed cst \<longrightarrow>
             new_heights_ok g d hts ts' \<and>
             fst ` set (tile_to_new_height ts) \<subseteq> fst ` set (tile_to_new_height ts') \<and>
             n \<in> fst ` set (tile_to_new_height ts') \<and>
             pending g d hts ts' \<subseteq> pending g d hts ts)"
    and h: "h = hts c + d"
  shows "new_heights_ok g d hts ts \<Longrightarrow> c \<in> fst ` set (tile_to_new_height ts) \<Longrightarrow>
    \<forall>n\<in>set (candidates g tile ttms). geo_ok g c n \<longrightarrow> adjacent g c n \<Longrightarrow>
    \<exists>res. TerraformTileHeight_neighbours fuel g hts ts e c tile h tc ttms = Some res \<and>
      (\<forall>cst ts' e'. res = Inr (cst, ts', e') \<longrightarrow> \<not> Failed cst \<longrightarrow>
         new_heights_ok g d hts ts' \<and>
         fst ` set (tile_to_new_height ts) \<subseteq> fst ` set (tile_to_new_height ts') \<and>
         pending g d hts ts' \<subseteq>
           pending g d hts ts - {(c, n) | n. n \<in> set (candidates g tile ttms) \<and> geo_ok g c n})"
proof (induction ttms arbitrary: tile ts e tc)
  case Nil
  then show ?case by (simp add: TerraformTileHeight_neighbours_Nil)
next
  case (Cons ttm ttms)
  let ?n = "tile_add tile (ToTileIndexDiff g ttm)"
  let ?r = "TerraformGetHeightOfTile hts ts ?n"
  have cand: "candidates g tile (ttm # ttms) = ?n # candidates g ?n ttms" by simp
  have geo': "\<forall>n\<in>set (candidates g ?n ttms). geo_ok g c n \<longrightarrow> adjacent g c n"
    using Cons.prems(3) by simp
  have adj: "geo_ok g c ?n \<Longrightarrow> adjacent g c ?n" using Cons.prems(3) by simp
  have r: "?r = (if ?n \<in> fst ` set (tile_to_new_height ts) then hts ?n + d else hts ?n)"
    by (rule new_heights_ok_Get[OF Cons.prems(1)])
  show ?case
  proof (cases "neighbour_skipped g hts ts c ?n h")
    case True
    have eq: "TerraformTileHeight_neighbours fuel g hts ts e c tile h tc (ttm # ttms) =
          TerraformTileHeight_neighbours fuel g hts ts e c ?n h tc ttms"
      using True by (simp add: TerraformTileHeight_neighbours_Cons)
    from Cons.IH[OF Cons.prems(1,2) geo', of e tc] obtain res where
      res: "TerraformTileHeight_neighbours fuel g hts ts e c ?n h tc ttms = Some res"
      and post: "\<And>cst ts' e'. res = Inr (cst, ts', e') \<Longrightarrow> \<not> Failed cst \<Longrightarrow>
         new_heights_ok g d hts ts' \<and>
         fst ` set (tile_to_new_height ts) \<subseteq> fst ` set (tile_to_new_height ts') \<and>
         pending g d hts ts' \<subseteq>
           pending g d hts ts - {(c, n) | n. n \<in> set (candidates g ?n ttms) \<and> geo_ok g c n}"
      by blast
    have "new_heights_ok g d hts ts' \<and>
         fst ` set (tile_to_new_height ts) \<subseteq> fst ` set (tile_to_new_height ts') \<and>
         pending g d hts ts' \<subseteq>
           pending g d hts ts - {(c, n) | n. n \<in> set (candidates g tile (ttm # ttms)) \<and> geo_ok g c n}"
      if a: "res = Inr (cst, ts', e')" "\<not> Failed cst" for cst ts' e'
    proof -
      note p = post[OF a]
      have "(c, ?n) \<notin> pending g d hts ts'" if gk: "geo_ok g c ?n"
      proof
        assume pn: "(c, ?n) \<in> pending g d hts ts'"
        then have "?n \<notin> fst ` set (tile_to_new_height ts')" and far: "\<bar>hts c + d - hts ?n\<bar> > 1"
          by (simp_all add: pending_def)
        with p have "?n \<notin> fst ` set (tile_to_new_height ts)" by blast
        with r have "?r = hts ?n" by simp
        with far h have "\<bar>h - ?r\<bar> > 1" by simp
        with True gk show False by (simp add: neighbour_skipped_def geo_ok_def)
      qed
      with p show ?thesis unfolding cand by auto
    qed
    then show ?thesis unfolding eq res by blast
  next
    case False
    then have gk: "geo_ok g c ?n" and far: "\<bar>h - ?r\<bar> > 1"
      by (simp_all add: neighbour_skipped_def geo_ok_def)
    have v: "\<bar>hts c - hts ?n\<bar> \<le> 1" using heights_validD[OF hv adj[OF gk]] .
    have nk: "?n \<notin> fst ` set (tile_to_new_height ts)"
    proof
      assume "?n \<in> fst ` set (tile_to_new_height ts)"
      with r have "?r = hts ?n + d" by simp
      with far h v show False by simp
    qed
    with r have r0: "?r = hts ?n" by simp
    have far': "\<bar>(hts c + d) - hts ?n\<bar> > 1" using far h r0 by simp
    note rt = retarget_height[OF d v far']
    have tgt: "?r + (h - ?r + (if h - ?r < 0 then 1 else -1)) = hts ?n + d"
      using rt(1) unfolding r0 h .
    have nr: "0 \<le> ?n" "?n < MapSize g" using gk by (simp_all add: tile_add_nonneg geo_ok_def)
    from tth[OF Cons.prems(1) nr, of e] rt(2) h obtain res1 where
      res1: "TerraformTileHeight fuel g hts ts e ?n (hts ?n + d) = Some res1"
      and post1: "\<And>cst ts' e'. res1 = Inr (cst, ts', e') \<Longrightarrow> \<not> Failed cst \<Longrightarrow>
             new_heights_ok g d hts ts' \<and>
             fst ` set (tile_to_new_height ts) \<subseteq> fst ` set (tile_to_new_height ts') \<and>
             ?n \<in> fst ` set (tile_to_new_height ts') \<and>
             pending g d hts ts' \<subseteq> pending g d hts ts"
      by auto
    note eq = TerraformTileHeight_neighbours_Cons[of fuel g hts ts e c tile h tc ttm ttms,
        simplified False if_False, unfolded tgt res1]
    show ?thesis
    proof (cases res1)
      case (Inl a)
      with eq show ?thesis by simp
    next
      case (Inr x)
      obtain cst ts2 e2 where x: "x = (cst, ts2, e2)" by (cases x)
      show ?thesis
      proof (cases "Failed cst")
        case True
        with eq Inr x show ?thesis by simp
      next
        case nf: False
        note p1 = post1[OF Inr[unfolded x] nf]
        have eq2: "TerraformTileHeight_neighbours fuel g hts ts e c tile h tc (ttm # ttms) =
            TerraformTileHeight_neighbours fuel g hts ts2 e2 c ?n h (AddCost tc cst) ttms"
          using eq Inr x nf by simp
        have c2: "c \<in> fst ` set (tile_to_new_height ts2)" using p1 Cons.prems(2) by blast
        from Cons.IH[OF conjunct1[OF p1] c2 geo', of e2 "AddCost tc cst"] obtain res where
          res: "TerraformTileHeight_neighbours fuel g hts ts2 e2 c ?n h (AddCost tc cst) ttms = Some res"
          and post: "\<And>cst ts' e'. res = Inr (cst, ts', e') \<Longrightarrow> \<not> Failed cst \<Longrightarrow>
             new_heights_ok g d hts ts' \<and>
             fst ` set (tile_to_new_height ts2) \<subseteq> fst ` set (tile_to_new_height ts') \<and>
             pending g d hts ts' \<subseteq>
               pending g d hts ts2 - {(c, n) | n. n \<in> set (candidates g ?n ttms) \<and> geo_ok g c n}"
          by blast
        have "new_heights_ok g d hts ts' \<and>
             fst ` set (tile_to_new_height ts) \<subseteq> fst ` set (tile_to_new_height ts') \<and>
             pending g d hts ts' \<subseteq>
               pending g d hts ts - {(c, n) | n. n \<in> set (candidates g tile (ttm # ttms)) \<and> geo_ok g c n}"
          if a: "res = Inr (cst', ts', e')" "\<not> Failed cst'" for cst' ts' e'
        proof -
          note p = post[OF a]
          have "?n \<in> fst ` set (tile_to_new_height ts')" using p p1 by blast
          then have nin: "(c, ?n) \<notin> pending g d hts ts'" by (simp add: pending_def)
          have k: "fst ` set (tile_to_new_height ts) \<subseteq> fst ` set (tile_to_new_height ts')"
            using p p1 by blast
          have "pending g d hts ts' \<subseteq>
               pending g d hts ts - {(c, n) | n. n \<in> set (candidates g ?n ttms) \<and> geo_ok g c n}"
            using p p1 by blast
          moreover have "{(c, n) | n. n \<in> set (?n # candidates g ?n ttms) \<and> geo_ok g c n} \<subseteq>
              {(c, n) | n. n \<in> set (candidates g ?n ttms) \<and> geo_ok g c n} \<union> {(c, ?n)}"
            by auto
          ultimately have "pending g d hts ts' \<subseteq>
               pending g d hts ts - {(c, n) | n. n \<in> set (?n # candidates g ?n ttms) \<and> geo_ok g c n}"
            using nin by blast
          with p k show ?thesis unfolding cand by blast
        qed
        then show ?thesis unfolding eq2 res by blast
      qed
    qed
  qed
qed

text \<open>
  The tiles the loop of \<^verbatim>\<open>TerraformTileHeight\<close> comes to and does not pass over are the
  adjacent tiles of the map.
\<close>

lemma to_uint_eq: "0 \<le> v \<Longrightarrow> v < 2 ^ 32 \<Longrightarrow> to_uint v = v"
  by (simp add: to_uint_def)

lemma to_uint_negative: "v < 0 \<Longrightarrow> - (2 ^ 32) \<le> v \<Longrightarrow> to_uint v = v + 2 ^ 32"
proof -
  assume a: "v < 0" "- (2 ^ 32) \<le> v"
  have "v mod 2 ^ 32 = (v + 2 ^ 32) mod 2 ^ 32" by simp
  also have "\<dots> = v + 2 ^ 32" using a by (intro mod_pos_pos_trivial) simp_all
  finally show ?thesis by (simp add: to_uint_def)
qed

lemma tile_add_to_uint: "tile_add (to_uint a) b = to_uint (a + b)"
  by (simp add: tile_add_def to_uint_def mod_add_left_eq)

lemma tile_coords:
  assumes "0 < MapSizeX g" "0 \<le> x" "x < MapSizeX g"
  shows "TileX g (y * MapSizeX g + x) = x" "TileY g (y * MapSizeX g + x) = y"
  using assms by (simp_all add: TileX_def TileY_def)

lemma wf_gameD:
  assumes "wf_game g"
  shows "2 ^ MapLogX g = MapSizeX g" "3 \<le> MapSizeX g" "3 \<le> MapSizeY g"
    "MapSize g = MapSizeX g * MapSizeY g" "MapSize g + MapSizeX g \<le> 2 ^ 32"
    "0 \<le> max_heightlevel g" "max_heightlevel g < 2 ^ 32"
  using assms unfolding wf_game_def by auto

lemma wf_game_to_uint:
  assumes wf: "wf_game g"
  shows "to_uint (MapSizeX g - 1) = MapSizeX g - 1" "to_uint (MapSizeY g - 1) = MapSizeY g - 1"
proof -
  note w = wf_gameD[OF wf]
  have "1 * MapSizeY g \<le> MapSizeX g * MapSizeY g"
    using w(2,3) by (intro mult_right_mono) simp_all
  then have y: "MapSizeY g \<le> MapSize g" using w(4) by simp
  have x: "0 \<le> MapSize g" using y w(3) by simp
  show "to_uint (MapSizeX g - 1) = MapSizeX g - 1"
    using w(2,5) x by (intro to_uint_eq) simp_all
  show "to_uint (MapSizeY g - 1) = MapSizeY g - 1"
    using w(2,3,5) y by (intro to_uint_eq) simp_all
qed

lemma tile_in_map:
  assumes wf: "wf_game g" and c: "0 \<le> c" "c < MapSize g"
  shows "0 \<le> TileX g c" "TileX g c < MapSizeX g" "0 \<le> TileY g c" "TileY g c < MapSizeY g"
    "c = TileY g c * MapSizeX g + TileX g c"
proof -
  have s: "0 < MapSizeX g" and n: "MapSize g = MapSizeX g * MapSizeY g"
    using wf_gameD[OF wf] by simp_all
  show "0 \<le> TileX g c" "TileX g c < MapSizeX g" using s by (simp_all add: TileX_def)
  show "0 \<le> TileY g c" using s c by (simp add: TileY_def pos_imp_zdiv_nonneg_iff)
  show "TileY g c < MapSizeY g"
  proof (rule ccontr)
    assume "\<not> TileY g c < MapSizeY g"
    then have "MapSizeX g * MapSizeY g \<le> MapSizeX g * (c div MapSizeX g)"
      using s by (intro mult_left_mono) (simp_all add: TileY_def)
    moreover have "MapSizeX g * (c div MapSizeX g) + c mod MapSizeX g = c" by simp
    moreover have "0 \<le> c mod MapSizeX g" using s by simp
    ultimately show False using c n by linarith
  qed
  show "c = TileY g c * MapSizeX g + TileX g c" by (simp add: TileX_def TileY_def)
qed

lemma candidates_terraform_tilepos:
  assumes wf: "wf_game g" and c: "0 \<le> c" "c < MapSize g"
  shows "candidates g c terraform_tilepos =
           [to_uint (c + 1), to_uint (c - 1), to_uint (c + MapSizeX g), to_uint (c - MapSizeX g)]"
proof -
  have s: "2 ^ MapLogX g = MapSizeX g" and b: "MapSize g + MapSizeX g \<le> 2 ^ 32" "3 \<le> MapSizeX g"
    using wf_gameD[OF wf] by simp_all
  have c0: "c = to_uint c" using c b by (simp add: to_uint_eq)
  have "candidates g (to_uint c) terraform_tilepos =
           [to_uint (c + 1), to_uint (c - 1), to_uint (c + MapSizeX g), to_uint (c - MapSizeX g)]"
    by (simp add: terraform_tilepos_def ToTileIndexDiff_def tile_add_to_uint s)
  with c0 show ?thesis by simp
qed

lemma candidates_adjacent:
  assumes wf: "wf_game g" and c: "0 \<le> c" "c < MapSize g"
    and n: "n \<in> set (candidates g c terraform_tilepos)" and gk: "geo_ok g c n"
  shows "adjacent g c n"
proof -
  define S where "S = MapSizeX g"
  define x y where "x = TileX g c" and "y = TileY g c"
  have s3: "3 \<le> S" and b: "MapSize g + S \<le> 2 ^ 32" and y3: "3 \<le> MapSizeY g"
    and N: "MapSize g = S * MapSizeY g"
    using wf_gameD[OF wf] unfolding S_def by simp_all
  have s0: "0 < MapSizeX g" using s3 by (simp add: S_def)
  note cm = tile_in_map[OF wf c, folded x_def y_def S_def]
  have nN: "n < MapSize g" using gk by (simp add: geo_ok_def)
  have dx: "Delta x (TileX g n) \<noteq> S - 1" and dy: "Delta y (TileY g n) \<noteq> MapSizeY g - 1"
    using gk unfolding geo_ok_def wf_game_to_uint[OF wf] x_def y_def S_def by blast+
  have adj: "adjacent g c n" if "0 \<le> n" "\<bar>x - TileX g n\<bar> + \<bar>y - TileY g n\<bar> = 1"
    using that c nN by (simp add: adjacent_def x_def y_def)
  from n consider "n = to_uint (c + 1)" | "n = to_uint (c - 1)" | "n = to_uint (c + S)"
    | "n = to_uint (c - S)"
    unfolding candidates_terraform_tilepos[OF wf c] S_def by auto
  then show ?thesis
  proof cases
    case 1
    then have n1: "n = c + 1" using c b s3 by (simp add: to_uint_eq)
    show ?thesis
    proof (cases "x + 1 < S")
      case True
      have "n = y * MapSizeX g + (x + 1)" using n1 cm(5) by (simp add: S_def)
      then have "TileX g n = x + 1" "TileY g n = y"
        using tile_coords[OF s0, of "x + 1" y] True cm(1) by (simp_all add: S_def)
      then show ?thesis using n1 c by (intro adj) simp_all
    next
      case False
      then have xs: "x = S - 1" using cm(2) by simp
      have "n = (y + 1) * MapSizeX g + 0" using n1 cm(5) xs by (simp add: S_def algebra_simps)
      then have "TileX g n = 0" using tile_coords(1)[OF s0, of 0 "y + 1"] s0 by simp
      then have "Delta x (TileX g n) = S - 1" using xs s3 by (simp add: Delta_def)
      with dx show ?thesis by simp
    qed
  next
    case 2
    show ?thesis
    proof (cases "c = 0")
      case True
      then have "n = 2 ^ 32 - 1" using 2 by (simp add: to_uint_def)
      then show ?thesis using nN b s3 by simp
    next
      case False
      then have n1: "n = c - 1" using 2 c b s3 by (simp add: to_uint_eq)
      show ?thesis
      proof (cases "1 \<le> x")
        case True
        have "n = y * MapSizeX g + (x - 1)" using n1 cm(5) by (simp add: S_def)
        then have "TileX g n = x - 1" "TileY g n = y"
          using tile_coords[OF s0, of "x - 1" y] True cm(2) by (simp_all add: S_def)
        then show ?thesis using n1 c False by (intro adj) simp_all
      next
        case x0: False
        then have xs: "x = 0" using cm(1) by simp
        have "n = (y - 1) * MapSizeX g + (S - 1)" using n1 cm(5) xs by (simp add: S_def algebra_simps)
        then have "TileX g n = S - 1" using tile_coords(1)[OF s0, of "S - 1" "y - 1"] s3 by (simp add: S_def)
        then have "Delta x (TileX g n) = S - 1" using xs s3 by (simp add: Delta_def)
        with dx show ?thesis by simp
      qed
    qed
  next
    case 3
    then have n1: "n = c + S" using c b s3 by (simp add: to_uint_eq)
    have "n = (y + 1) * MapSizeX g + x" using n1 cm(5) by (simp add: S_def algebra_simps)
    then have "TileX g n = x" "TileY g n = y + 1"
      using tile_coords[OF s0, of x "y + 1"] cm(1,2) by (simp_all add: S_def)
    then show ?thesis using n1 c s3 by (intro adj) simp_all
  next
    case 4
    show ?thesis
    proof (cases "1 \<le> y")
      case True
      have "S * 1 \<le> S * y" using True s3 by (intro mult_left_mono) simp_all
      then have cs: "S \<le> c" using cm(5) cm(1) by (simp add: S_def mult.commute)
      then have n1: "n = c - S" using 4 c b s3 by (simp add: to_uint_eq)
      have "n = (y - 1) * MapSizeX g + x" using n1 cm(5) by (simp add: S_def algebra_simps)
      then have "TileX g n = x" "TileY g n = y - 1"
        using tile_coords[OF s0, of x "y - 1"] cm(1,2) by (simp_all add: S_def)
      then show ?thesis using n1 cs by (intro adj) simp_all
    next
      case False
      then have "y = 0" using cm(3) by simp
      then have cx: "c = x" using cm(5) by simp
      then have neg: "c - S < 0" "- (2 ^ 32) \<le> c - S" using cm(2) c b by simp_all
      have "n = c - S + 2 ^ 32" using 4 to_uint_negative[OF neg] by simp
      then show ?thesis using nN b c by simp
    qed
  qed
qed

lemma adjacent_candidates:
  assumes wf: "wf_game g" and a: "adjacent g c n"
  shows "n \<in> set (candidates g c terraform_tilepos) \<and> geo_ok g c n"
proof -
  define S where "S = MapSizeX g"
  define x y xn yn where "x = TileX g c" and "y = TileY g c" and "xn = TileX g n" and "yn = TileY g n"
  have c: "0 \<le> c" "c < MapSize g" and n: "0 \<le> n" "n < MapSize g"
    and d: "\<bar>x - xn\<bar> + \<bar>y - yn\<bar> = 1"
    using a by (simp_all add: adjacent_def x_def y_def xn_def yn_def)
  have s3: "3 \<le> S" and b: "MapSize g + S \<le> 2 ^ 32" and y3: "3 \<le> MapSizeY g"
    using wf_gameD[OF wf] unfolding S_def by simp_all
  note cm = tile_in_map[OF wf c, folded x_def y_def S_def]
  note nm = tile_in_map[OF wf n, folded xn_def yn_def S_def]
  have tu: "to_uint (S - 1) = S - 1" "to_uint (MapSizeY g - 1) = MapSizeY g - 1"
    using wf_game_to_uint[OF wf] by (simp_all add: S_def)
  have gk: "geo_ok g c n"
    using n d s3 y3 unfolding geo_ok_def x_def[symmetric] y_def[symmetric]
      xn_def[symmetric] yn_def[symmetric] S_def[symmetric]
    by (auto simp add: Delta_def tu)
  from d have "(xn = x + 1 \<and> yn = y) \<or> (xn = x - 1 \<and> yn = y) \<or> (xn = x \<and> yn = y + 1) \<or>
      (xn = x \<and> yn = y - 1)"
    by arith
  then consider "xn = x + 1" "yn = y" | "xn = x - 1" "yn = y" | "xn = x" "yn = y + 1"
    | "xn = x" "yn = y - 1"
    by blast
  then have "n = c + 1 \<or> n = c - 1 \<or> n = c + S \<or> n = c - S"
  proof cases
    case 1
    then show ?thesis using cm(5) nm(5) by simp
  next
    case 2
    then show ?thesis using cm(5) nm(5) by simp
  next
    case 3
    have "n = (y + 1) * S + x" using 3 nm(5) by simp
    also have "\<dots> = (y * S + x) + S" by (simp add: algebra_simps)
    finally have "n = c + S" using cm(5) by simp
    then show ?thesis by simp
  next
    case 4
    have "n = (y - 1) * S + x" using 4 nm(5) by simp
    also have "\<dots> = (y * S + x) - S" by (simp add: algebra_simps)
    finally have "n = c - S" using cm(5) by simp
    then show ?thesis by simp
  qed
  moreover have "to_uint n = n" using n b s3 by (simp add: to_uint_eq)
  ultimately have "n \<in> set (candidates g c terraform_tilepos)"
    unfolding candidates_terraform_tilepos[OF wf c] S_def[symmetric] by auto
  with gk show ?thesis by simp
qed

text \<open>
  A call of \<^verbatim>\<open>TerraformTileHeight\<close> with enough fuel returns; when it succeeds the tile has a
  new height and no pair is left to be dealt with that was not there before.
\<close>

lemma enough_fuel_nested:
  assumes "enough_fuel g d (Suc fuel) h" "0 \<le> h" "h \<le> max_heightlevel g" "d = 1 \<or> d = -1"
  shows "enough_fuel g d fuel (h - d)"
  using assms by (auto simp add: enough_fuel_def)

lemma TerraformTileHeight_post:
  assumes wf: "wf_game g" and hv: "heights_valid g hts" and d: "d = 1 \<or> d = -1"
  shows "new_heights_ok g d hts ts \<Longrightarrow> 0 \<le> c \<Longrightarrow> 1 \<le> fuel \<Longrightarrow>
    (c < MapSize g \<longrightarrow> enough_fuel g d fuel (hts c + d)) \<Longrightarrow>
    \<exists>res. TerraformTileHeight fuel g hts ts e c (hts c + d) = Some res \<and>
      (\<forall>cst ts' e'. res = Inr (cst, ts', e') \<longrightarrow> \<not> Failed cst \<longrightarrow>
         new_heights_ok g d hts ts' \<and>
         fst ` set (tile_to_new_height ts) \<subseteq> fst ` set (tile_to_new_height ts') \<and>
         c \<in> fst ` set (tile_to_new_height ts') \<and>
         pending g d hts ts' \<subseteq> pending g d hts ts)"
proof (induction fuel arbitrary: ts c e)
  case 0
  then show ?case by simp
next
  case (Suc fuel)
  let ?h = "hts c + d"
  show ?case
  proof (cases "TerraformTileHeight_stores g hts ts c ?h")
    case False
    have "\<exists>cst e'. TerraformTileHeight (Suc fuel) g hts ts e c ?h = Some (Inl AssertionFailed) \<or>
        (TerraformTileHeight (Suc fuel) g hts ts e c ?h = Some (Inr (cst, ts, e')) \<and> Failed cst)"
      using False by (simp add: TerraformTileHeight_Suc CMD_ERROR_Failed)
    then show ?thesis by auto
  next
    case True
    then have cN: "c < MapSize g" and h0: "0 \<le> ?h" and hm: "?h \<le> max_heightlevel g"
      by (simp_all add: TerraformTileHeight_stores_def)
    let ?ts1 = "TerraformSetHeightOfTile (TerraformAddDirtyTileAround g ts c) c ?h"
    note st = store_new_height[OF Suc.prems(1) True Suc.prems(2) refl]
    have k1: "fst ` set (tile_to_new_height ?ts1) = insert c (fst ` set (tile_to_new_height ts))"
      unfolding st(2) by simp
    have ef: "enough_fuel g d fuel (?h - d)"
      using enough_fuel_nested[OF _ h0 hm d] Suc.prems(4) cN by simp
    have tth: "\<exists>res. TerraformTileHeight fuel g hts ts' e' n (hts n + d) = Some res \<and>
          (\<forall>cst ts'' e''. res = Inr (cst, ts'', e'') \<longrightarrow> \<not> Failed cst \<longrightarrow>
             new_heights_ok g d hts ts'' \<and>
             fst ` set (tile_to_new_height ts') \<subseteq> fst ` set (tile_to_new_height ts'') \<and>
             n \<in> fst ` set (tile_to_new_height ts'') \<and>
             pending g d hts ts'' \<subseteq> pending g d hts ts')"
      if "new_heights_ok g d hts ts'" "0 \<le> n" "n < MapSize g" "hts n + d = ?h - d" for ts' e' n
    proof -
      have "1 \<le> fuel" using ef by (simp add: enough_fuel_def)
      moreover have "n < MapSize g \<longrightarrow> enough_fuel g d fuel (hts n + d)" using ef that(4) by simp
      ultimately show ?thesis using Suc.IH[OF that(1,2), of e'] by blast
    qed
    have geo: "\<forall>n\<in>set (candidates g c terraform_tilepos). geo_ok g c n \<longrightarrow> adjacent g c n"
      using candidates_adjacent[OF wf Suc.prems(2) cN] by blast
    have c1: "c \<in> fst ` set (tile_to_new_height ?ts1)" using k1 by simp
    from TerraformTileHeight_neighbours_post[OF hv d tth refl st(3) c1 geo,
        of e "AddCost_Money (CommandCost_ok 0) (price_PR_TERRAFORM g)"]
    obtain res where
      res: "TerraformTileHeight_neighbours fuel g hts ?ts1 e c c ?h
              (AddCost_Money (CommandCost_ok 0) (price_PR_TERRAFORM g)) terraform_tilepos = Some res"
      and post: "\<And>cst ts' e'. res = Inr (cst, ts', e') \<Longrightarrow> \<not> Failed cst \<Longrightarrow>
         new_heights_ok g d hts ts' \<and>
         fst ` set (tile_to_new_height ?ts1) \<subseteq> fst ` set (tile_to_new_height ts') \<and>
         pending g d hts ts' \<subseteq>
           pending g d hts ?ts1 -
             {(c, n) | n. n \<in> set (candidates g c terraform_tilepos) \<and> geo_ok g c n}"
      by blast
    have eq: "TerraformTileHeight (Suc fuel) g hts ts e c ?h = Some res"
      using True res by (simp add: TerraformTileHeight_Suc)
    have "new_heights_ok g d hts ts' \<and>
         fst ` set (tile_to_new_height ts) \<subseteq> fst ` set (tile_to_new_height ts') \<and>
         c \<in> fst ` set (tile_to_new_height ts') \<and>
         pending g d hts ts' \<subseteq> pending g d hts ts"
      if a: "res = Inr (cst, ts', e')" "\<not> Failed cst" for cst ts' e'
    proof -
      note p = post[OF a]
      note ok' = p[THEN conjunct1]
      note ks = p[THEN conjunct2, THEN conjunct1]
      note psub = p[THEN conjunct2, THEN conjunct2]
      have ps: "pending g d hts ?ts1 \<subseteq> pending g d hts ts \<union> {(c, n) | n. adjacent g c n}"
        using pending_store[OF hv k1] .
      have sub: "pending g d hts ts' \<subseteq> pending g d hts ts"
      proof
        fix pr assume m: "pr \<in> pending g d hts ts'"
        obtain a b where pr: "pr = (a, b)" by (cases pr)
        from m psub have m1: "pr \<in> pending g d hts ?ts1"
          and m2: "pr \<notin> {(c, n) | n. n \<in> set (candidates g c terraform_tilepos) \<and> geo_ok g c n}"
          by blast+
        from m1 ps have "pr \<in> pending g d hts ts \<or> pr \<in> {(c, n) | n. adjacent g c n}" by blast
        then show "pr \<in> pending g d hts ts"
        proof
          assume "pr \<in> pending g d hts ts"
          then show ?thesis .
        next
          assume "pr \<in> {(c, n) | n. adjacent g c n}"
          then have ac: "a = c" "adjacent g c b" using pr by simp_all
          from adjacent_candidates[OF wf ac(2)] m2 pr ac(1) show ?thesis by simp
        qed
      qed
      have k: "fst ` set (tile_to_new_height ts) \<subseteq> fst ` set (tile_to_new_height ts')"
        using ks unfolding k1 by simp
      have ck: "c \<in> fst ` set (tile_to_new_height ts')"
        using ks unfolding k1 by simp
      show ?thesis using ok' k ck sub by simp
    qed
    then show ?thesis unfolding eq by blast
  qed
qed

lemma SetTileHeights_distinct:
  "distinct (map fst xs) \<Longrightarrow>
   SetTileHeights xs f t = (case map_of xs t of Some v \<Rightarrow> to_uint v | None \<Rightarrow> f t)"
proof (induction xs arbitrary: f)
  case Nil
  then show ?case by simp
next
  case (Cons kv xs)
  obtain k v where kv: "kv = (k, v)" by (cases kv)
  from Cons.prems kv have k: "k \<notin> fst ` set xs" and dx: "distinct (map fst xs)" by simp_all
  from k have mk: "map_of xs k = None" by (simp add: map_of_eq_None_iff)
  have ih: "SetTileHeights xs (f(k := to_uint v)) t =
      (case map_of xs t of Some v' \<Rightarrow> to_uint v' | None \<Rightarrow> (f(k := to_uint v)) t)"
    by (rule Cons.IH[OF dx])
  have st: "SetTileHeights (kv # xs) f t = SetTileHeights xs (f(k := to_uint v)) t"
    by (simp add: kv)
  show ?case
  proof (cases "t = k")
    case True
    have "SetTileHeights xs (f(k := to_uint v)) t = to_uint v" using ih mk True by simp
    then show ?thesis using st True kv by simp
  next
    case False
    have "SetTileHeights xs (f(k := to_uint v)) t =
        (case map_of xs t of Some v' \<Rightarrow> to_uint v' | None \<Rightarrow> f t)"
      using ih False by (simp split: option.split)
    then show ?thesis using st False kv by simp
  qed
qed

lemma new_heights_ok_Set:
  assumes wf: "wf_game g" and ok: "new_heights_ok g d hts ts"
  shows "SetTileHeights (tile_to_new_height ts) hts t =
           (if t \<in> fst ` set (tile_to_new_height ts) then hts t + d else hts t)"
proof (cases "t \<in> fst ` set (tile_to_new_height ts)")
  case True
  then obtain v where v: "(t, v) \<in> set (tile_to_new_height ts)" by auto
  with ok have m: "map_of (tile_to_new_height ts) t = Some v" and e: "v = hts t + d"
    and r: "0 \<le> v" "v \<le> max_heightlevel g"
    by (auto simp add: new_heights_ok_def)
  have "to_uint v = v" using r wf_gameD(7)[OF wf] by (intro to_uint_eq) simp_all
  with m e True ok show ?thesis by (simp add: SetTileHeights_distinct new_heights_ok_def)
next
  case False
  then have "map_of (tile_to_new_height ts) t = None" by (simp add: map_of_eq_None_iff)
  with False ok show ?thesis by (simp add: SetTileHeights_distinct new_heights_ok_def)
qed

lemma heights_valid_after:
  assumes wf: "wf_game g" and hv: "heights_valid g hts" and ok: "new_heights_ok g d hts ts"
    and pe: "pending g d hts ts = {}"
  shows "heights_valid g (SetTileHeights (tile_to_new_height ts) hts)"
proof -
  let ?K = "fst ` set (tile_to_new_height ts)"
  let ?H = "SetTileHeights (tile_to_new_height ts) hts"
  note H = new_heights_ok_Set[OF wf ok]
  have rng: "0 \<le> ?H a \<and> ?H a \<le> max_heightlevel g" if a: "0 \<le> a" "a < MapSize g" for a
  proof (cases "a \<in> ?K")
    case True
    then obtain v where "(a, v) \<in> set (tile_to_new_height ts)" by auto
    with ok have "v = hts a + d" "0 \<le> v" "v \<le> max_heightlevel g"
      by (auto simp add: new_heights_ok_def)
    with True show ?thesis by (simp add: H)
  next
    case False
    with heights_valid_range[OF hv a] show ?thesis by (simp add: H)
  qed
  have np: "\<bar>hts a + d - hts b\<bar> \<le> 1" if "adjacent g a b" "a \<in> ?K" "b \<notin> ?K" for a b
  proof (rule ccontr)
    assume "\<not> \<bar>hts a + d - hts b\<bar> \<le> 1"
    with that have "(a, b) \<in> pending g d hts ts" by (simp add: pending_def)
    with pe show False by simp
  qed
  have adj: "\<bar>?H a - ?H b\<bar> \<le> 1" if ab: "adjacent g a b" for a b
  proof -
    note v = heights_validD[OF hv ab]
    consider "a \<in> ?K" "b \<in> ?K" | "a \<in> ?K" "b \<notin> ?K" | "a \<notin> ?K" "b \<in> ?K" | "a \<notin> ?K" "b \<notin> ?K"
      by blast
    then show ?thesis
    proof cases
      case 1
      then show ?thesis using v by (simp add: H)
    next
      case 2
      then show ?thesis using np[OF ab] by (simp add: H)
    next
      case 3
      then show ?thesis using np[OF adjacent_sym[OF ab]] by (simp add: H)
    next
      case 4
      then show ?thesis using v by (simp add: H)
    qed
  qed
  show ?thesis
    unfolding heights_valid_def using rng adj by auto
qed

lemma enough_fuel_top:
  assumes wf: "wf_game g" and hv: "heights_valid g hts" and d: "d = 1 \<or> d = -1"
    and fuel: "nat (max_heightlevel g) + 3 \<le> fuel" and t: "0 \<le> t" "t < MapSize g"
  shows "enough_fuel g d fuel (hts t + d)"
  using heights_valid_range[OF hv t] fuel d wf_gameD(6)[OF wf]
  by (auto simp add: enough_fuel_def)

lemma CmdTerraformLand_corners_post:
  assumes wf: "wf_game g" and hv: "heights_valid g hts" and d: "d = 1 \<or> d = -1"
    and fuel: "nat (max_heightlevel g) + 3 \<le> fuel"
  shows "new_heights_ok g d hts ts \<Longrightarrow> pending g d hts ts = {} \<Longrightarrow>
     \<forall>(en, t)\<in>set cs. 0 \<le> t \<Longrightarrow>
     \<exists>res. CmdTerraformLand_corners fuel g hts d cs (tc, ts, e) = Some res \<and>
       (\<forall>tc' ts' e'. res = Inr (Continues (tc', ts', e')) \<longrightarrow>
          new_heights_ok g d hts ts' \<and> pending g d hts ts' = {})"
proof (induction cs arbitrary: tc ts e)
  case Nil
  then show ?case by simp
next
  case (Cons a cs)
  obtain en t where a: "a = (en, t)" by (cases a)
  have rest: "\<forall>(en, t)\<in>set cs. 0 \<le> t" using Cons.prems(3) by simp
  have t0: "0 \<le> t" using Cons.prems(3) a by simp
  show ?case
  proof (cases en)
    case False
    then show ?thesis using Cons.IH[OF Cons.prems(1,2) rest, of tc e] a by simp
  next
    case True
    have f1: "1 \<le> fuel" using fuel by simp
    have ef: "t < MapSize g \<longrightarrow> enough_fuel g d fuel (hts t + d)"
      using enough_fuel_top[OF wf hv d fuel t0] by simp
    from TerraformTileHeight_post[OF wf hv d Cons.prems(1) t0 f1 ef, of e] obtain res1 where
      r1: "TerraformTileHeight fuel g hts ts e t (hts t + d) = Some res1"
      and p1: "\<And>cst ts' e'. res1 = Inr (cst, ts', e') \<Longrightarrow> \<not> Failed cst \<Longrightarrow>
         new_heights_ok g d hts ts' \<and>
         fst ` set (tile_to_new_height ts) \<subseteq> fst ` set (tile_to_new_height ts') \<and>
         t \<in> fst ` set (tile_to_new_height ts') \<and>
         pending g d hts ts' \<subseteq> pending g d hts ts"
      by blast
    show ?thesis
    proof (cases res1)
      case (Inl x)
      then show ?thesis using r1 a True by simp
    next
      case (Inr x)
      obtain cst ts2 e2 where x: "x = (cst, ts2, e2)" by (cases x)
      show ?thesis
      proof (cases "Failed cst")
        case f: True
        then show ?thesis using r1 a True Inr x by simp
      next
        case nf: False
        note p = p1[OF Inr[unfolded x] nf]
        have pe: "pending g d hts ts2 = {}" using p Cons.prems(2) by blast
        from Cons.IH[OF conjunct1[OF p] pe rest, of "AddCost tc cst" e2]
        show ?thesis using r1 a True Inr x nf by simp
      qed
    qed
  qed
qed

lemma CmdTerraformLand_corners_keys:
  assumes wf: "wf_game g" and hv: "heights_valid g hts" and d: "d = 1 \<or> d = -1"
    and fuel: "nat (max_heightlevel g) + 3 \<le> fuel"
  shows "new_heights_ok g d hts ts \<Longrightarrow> \<forall>(en, t)\<in>set cs. 0 \<le> t \<Longrightarrow>
     CmdTerraformLand_corners fuel g hts d cs (tc, ts, e) = Some (Inr (Continues (tc', ts', e'))) \<Longrightarrow>
     fst ` set (tile_to_new_height ts) \<subseteq> fst ` set (tile_to_new_height ts') \<and>
     (\<forall>(en, t)\<in>set cs. en \<longrightarrow> t \<in> fst ` set (tile_to_new_height ts'))"
proof (induction cs arbitrary: tc ts e)
  case Nil
  then show ?case by simp
next
  case (Cons a cs)
  obtain en t where a: "a = (en, t)" by (cases a)
  have rest: "\<forall>(en, t)\<in>set cs. 0 \<le> t" using Cons.prems(2) by simp
  have t0: "0 \<le> t" using Cons.prems(2) a by simp
  show ?case
  proof (cases en)
    case False
    then show ?thesis using Cons.IH[OF Cons.prems(1) rest, of tc e] Cons.prems(3) a by simp
  next
    case True
    have f1: "1 \<le> fuel" using fuel by simp
    have ef: "t < MapSize g \<longrightarrow> enough_fuel g d fuel (hts t + d)"
      using enough_fuel_top[OF wf hv d fuel t0] by simp
    from TerraformTileHeight_post[OF wf hv d Cons.prems(1) t0 f1 ef, of e] obtain res1 where
      r1: "TerraformTileHeight fuel g hts ts e t (hts t + d) = Some res1"
      and p1: "\<And>cst ts' e'. res1 = Inr (cst, ts', e') \<Longrightarrow> \<not> Failed cst \<Longrightarrow>
         new_heights_ok g d hts ts' \<and>
         fst ` set (tile_to_new_height ts) \<subseteq> fst ` set (tile_to_new_height ts') \<and>
         t \<in> fst ` set (tile_to_new_height ts') \<and>
         pending g d hts ts' \<subseteq> pending g d hts ts"
      by blast
    show ?thesis
    proof (cases res1)
      case (Inl x)
      then show ?thesis using r1 a True Cons.prems(3) by simp
    next
      case (Inr x)
      obtain cst ts2 e2 where x: "x = (cst, ts2, e2)" by (cases x)
      show ?thesis
      proof (cases "Failed cst")
        case f: True
        then show ?thesis using r1 a True Inr x Cons.prems(3) by simp
      next
        case nf: False
        note p = p1[OF Inr[unfolded x] nf]
        have c: "CmdTerraformLand_corners fuel g hts d cs (AddCost tc cst, ts2, e2) =
            Some (Inr (Continues (tc', ts', e')))"
          using Cons.prems(3) r1 a True Inr x nf by simp
        note ih = Cons.IH[OF conjunct1[OF p] rest c]
        have k: "fst ` set (tile_to_new_height ts) \<subseteq> fst ` set (tile_to_new_height ts')"
          using ih p by blast
        have "t \<in> fst ` set (tile_to_new_height ts')" using ih p by blast
        with ih k show ?thesis unfolding a by simp
      qed
    qed
  qed
qed

lemma CmdTerraformLand_result_cases:
  assumes r: "CmdTerraformLand fuel g hooks w tile flags p1 p2 = Some (Inr (cst, w'))"
  shows "tile_height w' = tile_height w \<and> (Failed cst \<or> DC_EXEC \<notin> flags) \<or>
    (\<exists>tc ts e. CmdTerraformLand_collect fuel g (tile_height w) tile p1 (if p2 \<noteq> 0 then 1 else -1) =
        Some (Inr (Continues (tc, ts, e))) \<and>
      tile_height w' = SetTileHeights (tile_to_new_height ts) (tile_height w))"
proof (cases "Failed cst")
  case True
  with CmdTerraformLand_failure_unchanged[OF r] show ?thesis by simp
next
  case False
  let ?d = "if p2 \<noteq> 0 then 1 else (-1::int)"
  show ?thesis
  proof (cases "CmdTerraformLand_collect fuel g (tile_height w) tile p1 ?d")
    case None
    with r show ?thesis by (simp add: CmdTerraformLand_def Let_def)
  next
    case (Some res)
    show ?thesis
    proof (cases res)
      case (Inl e)
      with Some r show ?thesis by (simp add: CmdTerraformLand_def Let_def)
    next
      case (Inr f)
      show ?thesis
      proof (cases f)
        case (Returns x)
        obtain c t where x: "x = (c, t)" by (cases x)
        have "Failed c"
          using Some Inr Returns x CmdTerraformLand_corners_Returns_Failed
          unfolding CmdTerraformLand_collect_def by blast
        with Some Inr Returns x r False show ?thesis by (auto simp add: CmdTerraformLand_def Let_def)
      next
        case (Continues x)
        obtain tc ts e where x: "x = (tc, ts, e)" by (cases x)
        show ?thesis
        proof (cases "CmdTerraformLand_validate g hooks (tile_height w) flags ?d ts tc")
          case (Inl e)
          with Some Inr Continues x r show ?thesis by (simp add: CmdTerraformLand_def Let_def)
        next
          case vr: (Inr f2)
          show ?thesis
          proof (cases f2)
            case (Returns y)
            obtain c t where y: "y = (c, t)" by (cases y)
            have "Failed c"
              using vr Returns y CmdTerraformLand_validate_Returns_Failed by blast
            with Some Inr Continues x vr Returns y r False show ?thesis
              by (auto simp add: CmdTerraformLand_def Let_def)
          next
            case c2: (Continues tc1)
            from Some Inr Continues x vr c2 r False show ?thesis
              by (auto simp add: CmdTerraformLand_def Let_def CmdTerraformLand_exec_def
                  Failed_def return_cmd_error_def split: if_splits)
          qed
        qed
      qed
    qed
  qed
qed

lemma CmdTerraformLand_returns_iff:
  "(\<exists>res. CmdTerraformLand fuel g hooks w tile flags p1 p2 = Some res) =
   (\<exists>res. CmdTerraformLand_collect fuel g (tile_height w) tile p1 (if p2 \<noteq> 0 then 1 else -1) =
      Some res)"
  by (auto simp add: CmdTerraformLand_def Let_def
      split: option.splits sum.splits flow.splits prod.splits)

lemma heights_valid_diagonal:
  assumes wf: "wf_game g" and hv: "heights_valid g hts" and dg: "diagonal g a b"
  shows "\<bar>hts a - hts b\<bar> \<le> 2"
proof -
  have a: "0 \<le> a" "a < MapSize g" and b: "0 \<le> b" "b < MapSize g"
    and dx: "\<bar>TileX g a - TileX g b\<bar> = 1" and dy: "\<bar>TileY g a - TileY g b\<bar> = 1"
    using dg by (simp_all add: diagonal_def)
  note w = wf_gameD[OF wf]
  have s0: "0 < MapSizeX g" using w(2) by simp
  note am = tile_in_map[OF wf a]
  note bm = tile_in_map[OF wf b]
  define m where "m = TileY g b * MapSizeX g + TileX g a"
  have mc: "TileX g m = TileX g a" "TileY g m = TileY g b"
    unfolding m_def using tile_coords[OF s0 am(1,2), of "TileY g b"] by simp_all
  have m0: "0 \<le> m" unfolding m_def using am(1) bm(3) s0 by simp
  have "m < (TileY g b + 1) * MapSizeX g" unfolding m_def using am(2) by (simp add: algebra_simps)
  also have "\<dots> \<le> MapSizeY g * MapSizeX g" using bm(4) s0 by (intro mult_right_mono) simp_all
  finally have mN: "m < MapSize g" using w(4) by (simp add: mult.commute)
  have "adjacent g a m" using a m0 mN mc dy by (simp add: adjacent_def)
  moreover have "adjacent g m b" using b m0 mN mc dx by (simp add: adjacent_def)
  ultimately have "\<bar>hts a - hts m\<bar> \<le> 1" "\<bar>hts m - hts b\<bar> \<le> 1"
    using heights_validD[OF hv] by blast+
  then show ?thesis by linarith
qed

lemma wf_small_game: "wf_game small_game"
  by (simp add: wf_game_def small_game_def MapSizeX_def MapSizeY_def MapSize_def)

lemma heights_valid_hill_world: "heights_valid small_game (tile_height (hill_world lim))"
  by (auto simp add: heights_valid_def hill_world_def small_game_def)

text \<open>
  Claim C1, as stated: after a successful \<^verbatim>\<open>CmdTerraformLand\<close> with \<^verbatim>\<open>DC_EXEC\<close>, corners that
  are orthogonally or diagonally adjacent differ by at most 1. For diagonally adjacent
  corners they need not: on the 16 x 16 map that is flat at height 0 but for the corner
  (5, 5) at height 1, raising that corner brings it to height 2 and its four neighbours
  along X and Y to height 1, and leaves the corner (4, 4), diagonal to it, at height 0.
  (The command itself counts on it: a tile whose corners differ by 2 gets \<^verbatim>\<open>SLOPE_STEEP\<close>.)
\<close>

theorem CmdTerraformLand_diagonal_counterexample:
  "TileX small_game 85 = 5 \<and> TileY small_game 85 = 5 \<and>
   TileX small_game 68 = 4 \<and> TileY small_game 68 = 4 \<and>
   tile_height (hill_world 0x50000) 85 = 1 \<and> tile_height (hill_world 0x50000) 68 = 0 \<and>
   (case CmdTerraformLand 18 small_game permissive_hooks (hill_world 0x50000) 85 {DC_EXEC} SLOPE_N 1 of
      Some (Inr (cst, w')) \<Rightarrow>
        \<not> Failed cst \<and> tile_height w' 85 = 2 \<and> tile_height w' 84 = 1 \<and> tile_height w' 69 = 1 \<and>
        tile_height w' 68 = 0 \<and> \<not> \<bar>tile_height w' 85 - tile_height w' 68\<bar> \<le> 1
    | _ \<Rightarrow> False)"
  by code_simp

text \<open>
  Claim C1, amended. On a well-formed map with valid heights, \<^verbatim>\<open>CmdTerraformLand\<close>
  returns: the recursion of \<^verbatim>\<open>TerraformTileHeight\<close> is no deeper than the maximum height
  level plus 3, since the target height of a nested call is one nearer to the end of the
  range of heights. And whatever it returns, the heights are valid afterwards: corners
  adjacent along X or Y differ by at most 1 (so that diagonal ones differ by at most 2),
  every corner is where it was or one step further in the direction of the command, and
  after a successful command with \<^verbatim>\<open>DC_EXEC\<close> each selected corner of the map is one step
  further.
\<close>

theorem CmdTerraformLand_keeps_heights_valid:
  assumes wf: "wf_game g" and hv: "heights_valid g (tile_height w)"
    and fuel: "nat (max_heightlevel g) + 3 \<le> fuel"
  shows "(\<exists>res. CmdTerraformLand fuel g hooks w tile flags p1 p2 = Some res) \<and>
    (\<forall>cst w'. CmdTerraformLand fuel g hooks w tile flags p1 p2 = Some (Inr (cst, w')) \<longrightarrow>
       heights_valid g (tile_height w') \<and>
       (\<forall>a b. diagonal g a b \<longrightarrow> \<bar>tile_height w' a - tile_height w' b\<bar> \<le> 2) \<and>
       (\<forall>t. tile_height w' t = tile_height w t \<or>
            tile_height w' t = tile_height w t + (if p2 \<noteq> 0 then 1 else -1)) \<and>
       (\<not> Failed cst \<and> DC_EXEC \<in> flags \<longrightarrow>
        (\<forall>(s, x, y)\<in>set [(SLOPE_W, 1, 0), (SLOPE_S, 1, 1), (SLOPE_E, 0, 1), (SLOPE_N, 0, 0)].
           p1 AND s \<noteq> 0 \<and> tile_add tile (TileDiffXY g x y) < MapSize g \<longrightarrow>
           tile_height w' (tile_add tile (TileDiffXY g x y)) =
             tile_height w (tile_add tile (TileDiffXY g x y)) + (if p2 \<noteq> 0 then 1 else -1))))"
proof -
  define d where "d = (if p2 \<noteq> 0 then 1 else (-1::int))"
  define hts where "hts = tile_height w"
  define cs where "cs = [(p1 AND SLOPE_W \<noteq> 0 \<and> tile_add tile (TileDiffXY g 1 0) < MapSize g,
         tile_add tile (TileDiffXY g 1 0)),
        (p1 AND SLOPE_S \<noteq> 0 \<and> tile_add tile (TileDiffXY g 1 1) < MapSize g,
         tile_add tile (TileDiffXY g 1 1)),
        (p1 AND SLOPE_E \<noteq> 0 \<and> tile_add tile (TileDiffXY g 0 1) < MapSize g,
         tile_add tile (TileDiffXY g 0 1)),
        (p1 AND SLOPE_N \<noteq> 0, tile_add tile (TileDiffXY g 0 0))]"
  define ts0 where "ts0 = \<lparr>dirty_tiles = [], tile_to_new_height = []\<rparr>"
  have d: "d = 1 \<or> d = -1" by (simp add: d_def)
  have hv': "heights_valid g hts" using hv by (simp add: hts_def)
  have ok0: "new_heights_ok g d hts ts0" by (simp add: new_heights_ok_def ts0_def)
  have pe0: "pending g d hts ts0 = {}" by (simp add: pending_def ts0_def)
  have nn: "\<forall>(en, t)\<in>set cs. 0 \<le> t" by (simp add: cs_def tile_add_nonneg)
  have col: "CmdTerraformLand_collect fuel g (tile_height w) tile p1 (if p2 \<noteq> 0 then 1 else -1) =
      CmdTerraformLand_corners fuel g hts d cs (CommandCost_ok 0, ts0, INVALID_TILE)"
    by (simp add: CmdTerraformLand_collect_def cs_def ts0_def hts_def d_def)
  from CmdTerraformLand_corners_post[OF wf hv' d fuel ok0 pe0 nn, of "CommandCost_ok 0" INVALID_TILE]
  obtain res where
    res: "CmdTerraformLand_corners fuel g hts d cs (CommandCost_ok 0, ts0, INVALID_TILE) = Some res"
    and post: "\<And>tc' ts' e'. res = Inr (Continues (tc', ts', e')) \<Longrightarrow>
          new_heights_ok g d hts ts' \<and> pending g d hts ts' = {}"
    by blast
  have ret: "\<exists>res. CmdTerraformLand fuel g hooks w tile flags p1 p2 = Some res"
    unfolding CmdTerraformLand_returns_iff col res by blast
  have concl: "heights_valid g (tile_height w') \<and>
       (\<forall>t. tile_height w' t = tile_height w t \<or> tile_height w' t = tile_height w t + d) \<and>
       (\<not> Failed cst \<and> DC_EXEC \<in> flags \<longrightarrow>
        (\<forall>(s, x, y)\<in>set [(SLOPE_W, 1, 0), (SLOPE_S, 1, 1), (SLOPE_E, 0, 1), (SLOPE_N, 0, 0)].
           p1 AND s \<noteq> 0 \<and> tile_add tile (TileDiffXY g x y) < MapSize g \<longrightarrow>
           tile_height w' (tile_add tile (TileDiffXY g x y)) =
             tile_height w (tile_add tile (TileDiffXY g x y)) + d))"
    if r: "CmdTerraformLand fuel g hooks w tile flags p1 p2 = Some (Inr (cst, w'))" for cst w'
  proof -
    from CmdTerraformLand_result_cases[OF r] consider
      (same) "tile_height w' = tile_height w" "Failed cst \<or> DC_EXEC \<notin> flags"
      | (exec) tc ts e where
        "CmdTerraformLand_collect fuel g (tile_height w) tile p1 (if p2 \<noteq> 0 then 1 else -1) =
           Some (Inr (Continues (tc, ts, e)))"
        "tile_height w' = SetTileHeights (tile_to_new_height ts) (tile_height w)"
      by blast
    then show ?thesis
    proof cases
      case same
      show ?thesis
      proof (intro conjI allI impI)
        show "heights_valid g (tile_height w')" using same(1) hv by simp
        show "tile_height w' t = tile_height w t \<or> tile_height w' t = tile_height w t + d" for t
          using same(1) by simp
        show "\<forall>(s, x, y)\<in>set [(SLOPE_W, 1, 0), (SLOPE_S, 1, 1), (SLOPE_E, 0, 1), (SLOPE_N, 0, 0)].
           p1 AND s \<noteq> 0 \<and> tile_add tile (TileDiffXY g x y) < MapSize g \<longrightarrow>
           tile_height w' (tile_add tile (TileDiffXY g x y)) =
             tile_height w (tile_add tile (TileDiffXY g x y)) + d"
          if "\<not> Failed cst \<and> DC_EXEC \<in> flags"
          using same(2) that by blast
      qed
    next
      case exec
      from exec(1) have c: "CmdTerraformLand_corners fuel g hts d cs (CommandCost_ok 0, ts0, INVALID_TILE) =
          Some (Inr (Continues (tc, ts, e)))"
        unfolding col .
      have "Some res = Some (Inr (Continues (tc, ts, e)))" using res[symmetric] c by (rule trans)
      then have rr: "res = Inr (Continues (tc, ts, e))" by (simp only: option.inject)
      have ok: "new_heights_ok g d hts ts" and pe: "pending g d hts ts = {}"
        using post[OF rr] by blast+
      have H: "tile_height w' t =
          (if t \<in> fst ` set (tile_to_new_height ts) then tile_height w t + d else tile_height w t)"
        for t
        unfolding exec(2) using new_heights_ok_Set[OF wf ok, of t] by (simp only: hts_def)
      have v: "heights_valid g (tile_height w')"
        unfolding exec(2) using heights_valid_after[OF wf hv' ok pe] by (simp only: hts_def)
      have st: "tile_height w' t = tile_height w t \<or> tile_height w' t = tile_height w t + d" for t
        unfolding H[of t] by simp
      note ks = CmdTerraformLand_corners_keys[OF wf hv' d fuel ok0 nn c, THEN conjunct2]
      have cr: "tile_height w' t = tile_height w t + d" if "(True, t) \<in> set cs" for t
      proof -
        from ks that have "case (True, t) of (en, t) \<Rightarrow> en \<longrightarrow> t \<in> fst ` set (tile_to_new_height ts)"
          by (rule bspec)
        then have "t \<in> fst ` set (tile_to_new_height ts)" by simp
        then show ?thesis unfolding H[of t] by simp
      qed
      have cW: "tile_height w' (tile_add tile (TileDiffXY g 1 0)) =
                  tile_height w (tile_add tile (TileDiffXY g 1 0)) + d"
        if "p1 AND SLOPE_W \<noteq> 0" "tile_add tile (TileDiffXY g 1 0) < MapSize g"
        using that by (intro cr) (simp add: cs_def)
      have cS: "tile_height w' (tile_add tile (TileDiffXY g 1 1)) =
                  tile_height w (tile_add tile (TileDiffXY g 1 1)) + d"
        if "p1 AND SLOPE_S \<noteq> 0" "tile_add tile (TileDiffXY g 1 1) < MapSize g"
        using that by (intro cr) (simp add: cs_def)
      have cE: "tile_height w' (tile_add tile (TileDiffXY g 0 1)) =
                  tile_height w (tile_add tile (TileDiffXY g 0 1)) + d"
        if "p1 AND SLOPE_E \<noteq> 0" "tile_add tile (TileDiffXY g 0 1) < MapSize g"
        using that by (intro cr) (simp add: cs_def)
      have cN: "tile_height w' (tile_add tile (TileDiffXY g 0 0)) =
                  tile_height w (tile_add tile (TileDiffXY g 0 0)) + d"
        if "p1 AND SLOPE_N \<noteq> 0"
        using that by (intro cr) (simp add: cs_def)
      have cc: "\<forall>(s, x, y)\<in>set [(SLOPE_W, 1, 0), (SLOPE_S, 1, 1), (SLOPE_E, 0, 1), (SLOPE_N, 0, 0)].
           p1 AND s \<noteq> 0 \<and> tile_add tile (TileDiffXY g x y) < MapSize g \<longrightarrow>
           tile_height w' (tile_add tile (TileDiffXY g x y)) =
             tile_height w (tile_add tile (TileDiffXY g x y)) + d"
        using cW cS cE cN by simp
      show ?thesis
      proof (intro conjI allI impI)
        show "heights_valid g (tile_height w')" by (rule v)
        show "tile_height w' t = tile_height w t \<or> tile_height w' t = tile_height w t + d" for t
          by (rule st)
        show "\<forall>(s, x, y)\<in>set [(SLOPE_W, 1, 0), (SLOPE_S, 1, 1), (SLOPE_E, 0, 1), (SLOPE_N, 0, 0)].
           p1 AND s \<noteq> 0 \<and> tile_add tile (TileDiffXY g x y) < MapSize g \<longrightarrow>
           tile_height w' (tile_add tile (TileDiffXY g x y)) =
             tile_height w (tile_add tile (TileDiffXY g x y)) + d"
          by (rule cc)
      qed
    qed
  qed
  show ?thesis
  proof (intro conjI allI impI)
    show "\<exists>res. CmdTerraformLand fuel g hooks w tile flags p1 p2 = Some res" by (rule ret)
  next
    fix cst w'
    assume r: "CmdTerraformLand fuel g hooks w tile flags p1 p2 = Some (Inr (cst, w'))"
    note c = concl[OF r, unfolded d_def]
    show v: "heights_valid g (tile_height w')" using c by (rule conjunct1)
    show "\<bar>tile_height w' a - tile_height w' b\<bar> \<le> 2" if "diagonal g a b" for a b
      using wf v that by (rule heights_valid_diagonal)
    show "tile_height w' t = tile_height w t \<or>
            tile_height w' t = tile_height w t + (if p2 \<noteq> 0 then 1 else -1)" for t
      using c[THEN conjunct2, THEN conjunct1] by (rule spec)
    show "\<forall>(s, x, y)\<in>set [(SLOPE_W, 1, 0), (SLOPE_S, 1, 1), (SLOPE_E, 0, 1), (SLOPE_N, 0, 0)].
           p1 AND s \<noteq> 0 \<and> tile_add tile (TileDiffXY g x y) < MapSize g \<longrightarrow>
           tile_height w' (tile_add tile (TileDiffXY g x y)) =
             tile_height w (tile_add tile (TileDiffXY g x y)) + (if p2 \<noteq> 0 then 1 else -1)"
      if "\<not> Failed cst \<and> DC_EXEC \<in> flags"
      using c[THEN conjunct2, THEN conjunct2] that by (rule mp)
  qed
qed

text \<open>
  On the 16 x 16 map, raising the corner (5, 5) of the hill: the command succeeds, the
  heights stay valid and the corner is one higher.
\<close>

theorem CmdTerraformLand_keeps_heights_valid_witness:
  "wf_game small_game \<and> heights_valid small_game (tile_height (hill_world 0x50000)) \<and>
   nat (max_heightlevel small_game) + 3 \<le> 18 \<and>
   (case CmdTerraformLand 18 small_game permissive_hooks (hill_world 0x50000) 85 {DC_EXEC} SLOPE_N 1 of
      Some (Inr (cst, w')) \<Rightarrow>
        \<not> Failed cst \<and> heights_valid small_game (tile_height w') \<and>
        tile_height w' 85 = tile_height (hill_world 0x50000) 85 + 1
    | _ \<Rightarrow> False)"
proof -
  have f: "nat (max_heightlevel small_game) + 3 \<le> 18" by (simp add: small_game_def)
  have e: "case CmdTerraformLand 18 small_game permissive_hooks (hill_world 0x50000) 85 {DC_EXEC}
               SLOPE_N 1 of
             Some (Inr (cst, w')) \<Rightarrow> \<not> Failed cst | _ \<Rightarrow> False"
    by code_simp
  then obtain cst w' where
    r: "CmdTerraformLand 18 small_game permissive_hooks (hill_world 0x50000) 85 {DC_EXEC} SLOPE_N 1 =
          Some (Inr (cst, w'))"
    and nf: "\<not> Failed cst"
    by (auto split: option.splits sum.splits)
  note T = CmdTerraformLand_keeps_heights_valid[OF wf_small_game heights_valid_hill_world f,
      of permissive_hooks "0x50000" 85 "{DC_EXEC}" SLOPE_N 1, THEN conjunct2, rule_format, OF r]
  have v: "heights_valid small_game (tile_height w')" using T by (rule conjunct1)
  have n: "SLOPE_N AND SLOPE_N \<noteq> 0 \<and> tile_add 85 (TileDiffXY small_game 0 0) < MapSize small_game"
    by code_simp
  have t85: "tile_add 85 (TileDiffXY small_game 0 0) = 85" by code_simp
  have "tile_height w' (tile_add 85 (TileDiffXY small_game 0 0)) =
          tile_height (hill_world 0x50000) (tile_add 85 (TileDiffXY small_game 0 0)) +
            (if (1::int) \<noteq> 0 then 1 else -1)"
    using T[THEN conjunct2, THEN conjunct2, THEN conjunct2] nf n by simp
  then have c: "tile_height w' 85 = tile_height (hill_world 0x50000) 85 + 1"
    unfolding t85 by simp
  show ?thesis
    using wf_small_game heights_valid_hill_world[of "0x50000"] f nf v c by (simp add: r)
qed


section \<open>Properties of orthogonal tile areas\<close>

lemma to_uint_id: "0 \<le> v \<Longrightarrow> v < 2 ^ 32 \<Longrightarrow> to_uint v = v"
  by (simp add: to_uint_def)

lemma to_uint16_id: "0 \<le> v \<Longrightarrow> v < 2 ^ 16 \<Longrightarrow> to_uint16 v = v"
  by (simp add: to_uint16_def)

lemma to_int32_id: "- (2 ^ 31) \<le> v \<Longrightarrow> v < 2 ^ 31 \<Longrightarrow> to_int32 v = v"
  by (simp add: to_int32_def)

lemma TileXY_generic_coords:
  assumes "map_ok m" "0 \<le> x" "x < size_x m" "0 \<le> y" "y < size_y m"
  shows "tile_on m (TileXY_generic x y m) \<and> TileX_generic m (TileXY_generic x y m) = x \<and>
         TileY_generic m (TileXY_generic x y m) = y"
proof -
  have sx: "0 < size_x m" using assms(1) by (simp add: map_ok_def)
  have "y * size_x m + x < (y + 1) * size_x m" using assms by (simp add: algebra_simps)
  also have "\<dots> \<le> size_y m * size_x m" using assms sx by (intro mult_right_mono) simp_all
  finally have lt: "y * size_x m + x < size m" using assms(1) by (simp add: map_ok_def mult.commute)
  have ge: "0 \<le> y * size_x m + x" using assms sx by simp
  have "size m < 2 ^ 32" using assms(1) by (simp add: map_ok_def)
  with lt ge have i: "to_uint (y * size_x m + x) = y * size_x m + x"
    by (intro to_uint_id) simp_all
  have "(y * size_x m + x) mod size_x m = x" using assms sx by simp
  moreover have "(y * size_x m + x) div size_x m = y" using assms sx by simp
  ultimately show ?thesis using lt ge
    by (simp add: tile_on_def TileXY_generic_def TileX_generic_def TileY_generic_def MapOf_def
        IndexOf_def i)
qed


lemma tile_on_coords:
  assumes "map_ok m" "tile_on m t"
  shows "0 \<le> TileX_generic m t \<and> TileX_generic m t < size_x m \<and>
         0 \<le> TileY_generic m t \<and> TileY_generic m t < size_y m"
proof -
  have sx: "0 < size_x m" using assms(1) by (simp add: map_ok_def)
  have i: "0 \<le> IndexOf t" "IndexOf t < size_x m * size_y m"
    using assms by (simp_all add: tile_on_def map_ok_def)
  have "IndexOf t div size_x m < size_y m"
  proof (rule ccontr)
    assume "\<not> IndexOf t div size_x m < size_y m"
    then have "size_y m * size_x m \<le> (IndexOf t div size_x m) * size_x m"
      using sx by (intro mult_right_mono) simp_all
    also have "\<dots> \<le> (IndexOf t div size_x m) * size_x m + IndexOf t mod size_x m"
      using pos_mod_sign[OF sx, of "IndexOf t"] by linarith
    also have "\<dots> = IndexOf t" by simp
    finally show False using i by (simp add: mult.commute)
  qed
  moreover have "0 \<le> IndexOf t div size_x m" using i sx by (simp add: pos_imp_zdiv_nonneg_iff)
  ultimately show ?thesis using sx by (simp add: TileX_generic_def TileY_generic_def)
qed

lemma tile_on_valid: "tile_on m t \<Longrightarrow> IsValidTileIndex t"
  by (simp add: tile_on_def IsValidTileIndex_def)

lemma area_on_valid: "area_on m a \<Longrightarrow> IsValidTileIndex (area_tile a)"
  using tile_on_valid by (auto simp add: area_on_def)

lemma Add_invalid:
  "\<not> IsValidTileIndex (area_tile a) \<Longrightarrow> Add a t = Inr \<lparr>area_tile = t, area_w = 1, area_h = 1\<rparr>"
  by (simp add: Add_def)

lemma area_on_single:
  assumes "map_ok m" "tile_on m t"
  shows "area_on m \<lparr>area_tile = t, area_w = 1, area_h = 1\<rparr>"
  using tile_on_coords[OF assms] assms(2) by (simp add: area_on_def)

lemma Add_area_on:
  assumes m: "map_ok m" and t: "tile_on m t" and a: "area_on m a"
  shows "\<exists>b. Add a t = Inr b \<and> area_on m b \<and>
           area_left m b = min (TileX_generic m t) (area_left m a) \<and>
           area_right m b = max (TileX_generic m t) (area_right m a) \<and>
           area_top m b = min (TileY_generic m t) (area_top m a) \<and>
           area_bottom m b = max (TileY_generic m t) (area_bottom m a)"
proof -
  note tc = tile_on_coords[OF m t]
  have at: "tile_on m (area_tile a)" using a by (simp add: area_on_def)
  note ac = tile_on_coords[OF m at]
  have bounds: "size_x m < 2 ^ 16" "size_y m < 2 ^ 16" using m by (simp_all add: map_ok_def)
  let ?sx = "TileX_generic m (area_tile a)" and ?sy = "TileY_generic m (area_tile a)"
  let ?ax = "TileX_generic m t" and ?ay = "TileY_generic m t"
  have w: "1 \<le> area_w a" "?sx + area_w a \<le> size_x m" "1 \<le> area_h a" "?sy + area_h a \<le> size_y m"
    using a by (simp_all add: area_on_def)
  have ex: "to_uint (?sx + area_w a - 1) = ?sx + area_w a - 1"
    using ac w bounds by (intro to_uint_id) simp_all
  have ey: "to_uint (?sy + area_h a - 1) = ?sy + area_h a - 1"
    using ac w bounds by (intro to_uint_id) simp_all
  let ?sx' = "min ?ax ?sx" and ?sy' = "min ?ay ?sy"
  let ?ex' = "max ?ax (?sx + area_w a - 1)" and ?ey' = "max ?ay (?sy + area_h a - 1)"
  have r1: "0 \<le> ?sx'" "?sx' < size_x m" "0 \<le> ?sy'" "?sy' < size_y m"
    using tc ac by auto
  have r2: "?sx' \<le> ?ex'" "?ex' < size_x m" "?sy' \<le> ?ey'" "?ey' < size_y m"
    using tc ac w by auto
  have wx: "to_uint16 (to_uint (?ex' - ?sx' + 1)) = ?ex' - ?sx' + 1"
  proof -
    have "0 \<le> ?ex' - ?sx' + 1" "?ex' - ?sx' + 1 < 2 ^ 16" using r1 r2 bounds by linarith+
    then show ?thesis by (simp add: to_uint_id to_uint16_id)
  qed
  have wy: "to_uint16 (to_uint (?ey' - ?sy' + 1)) = ?ey' - ?sy' + 1"
  proof -
    have "0 \<le> ?ey' - ?sy' + 1" "?ey' - ?sy' + 1 < 2 ^ 16" using r1 r2 bounds by linarith+
    then show ?thesis by (simp add: to_uint_id to_uint16_id)
  qed
  note xy = TileXY_generic_coords[OF m r1]
  let ?b = "\<lparr>area_tile = TileXY_generic ?sx' ?sy' m, area_w = ?ex' - ?sx' + 1, area_h = ?ey' - ?sy' + 1\<rparr>"
  have same: "IsSameMap (area_tile a) t" "MapOf t = Some m"
    using at t by (simp_all add: IsSameMap_def tile_on_def)
  have "Add a t = Inr ?b"
    using area_on_valid[OF a] same
    by (simp add: Add_def Let_def ex ey wx wy)
  moreover have "area_on m ?b"
  proof -
    have "1 \<le> ?ex' - ?sx' + 1 \<and> ?sx' + (?ex' - ?sx' + 1) \<le> size_x m \<and>
          1 \<le> ?ey' - ?sy' + 1 \<and> ?sy' + (?ey' - ?sy' + 1) \<le> size_y m"
      using r1 r2 by linarith
    then show ?thesis
      using xy by (simp only: area_on_def OrthogonalTileArea.simps simp_thms)
  qed
  moreover have "area_left m ?b = ?sx'" "area_right m ?b = ?ex'" "area_top m ?b = ?sy'" "area_bottom m ?b = ?ey'"
    using xy by (simp_all add: area_left_def area_right_def area_top_def area_bottom_def)
  ultimately show ?thesis
    by (simp add: area_left_def area_right_def area_top_def area_bottom_def)
qed


lemma Min_insert_min:
  "finite S \<Longrightarrow> Min (insert (min (a::int) b) S) = Min (insert b (insert a S))"
  by (cases "S = {}") (simp_all add: min.commute min.assoc min.left_commute)

lemma Max_insert_max:
  "finite S \<Longrightarrow> Max (insert (max (a::int) b) S) = Max (insert b (insert a S))"
  by (cases "S = {}") (simp_all add: max.commute max.assoc max.left_commute)

lemma Add_all_area_on:
  assumes m: "map_ok m"
  shows "\<forall>t\<in>set ts. tile_on m t \<Longrightarrow> area_on m a \<Longrightarrow>
    \<exists>b. Add_all a ts = Inr b \<and> area_on m b \<and>
      area_left m b = Min (insert (area_left m a) (TileX_generic m ` set ts)) \<and>
      area_right m b = Max (insert (area_right m a) (TileX_generic m ` set ts)) \<and>
      area_top m b = Min (insert (area_top m a) (TileY_generic m ` set ts)) \<and>
      area_bottom m b = Max (insert (area_bottom m a) (TileY_generic m ` set ts))"
proof (induction ts arbitrary: a)
  case Nil
  then show ?case by simp
next
  case (Cons t ts)
  have t: "tile_on m t" and ts: "\<forall>t\<in>set ts. tile_on m t" using Cons.prems(1) by simp_all
  from Add_area_on[OF m t Cons.prems(2)] obtain b1 where
    b1: "Add a t = Inr b1" "area_on m b1"
      "area_left m b1 = min (TileX_generic m t) (area_left m a)"
      "area_right m b1 = max (TileX_generic m t) (area_right m a)"
      "area_top m b1 = min (TileY_generic m t) (area_top m a)"
      "area_bottom m b1 = max (TileY_generic m t) (area_bottom m a)"
    by blast
  from Cons.IH[OF ts b1(2)] obtain b where
    b: "Add_all b1 ts = Inr b" "area_on m b"
      "area_left m b = Min (insert (area_left m b1) (TileX_generic m ` set ts))"
      "area_right m b = Max (insert (area_right m b1) (TileX_generic m ` set ts))"
      "area_top m b = Min (insert (area_top m b1) (TileY_generic m ` set ts))"
      "area_bottom m b = Max (insert (area_bottom m b1) (TileY_generic m ` set ts))"
    by blast
  have "Add_all a (t # ts) = Inr b" using b1(1) b(1) by simp
  moreover have "area_left m b = Min (insert (area_left m a) (TileX_generic m ` set (t # ts)))"
    using b(3) b1(3) by (simp add: Min_insert_min insert_commute)
  moreover have "area_right m b = Max (insert (area_right m a) (TileX_generic m ` set (t # ts)))"
    using b(4) b1(4) by (simp add: Max_insert_max insert_commute)
  moreover have "area_top m b = Min (insert (area_top m a) (TileY_generic m ` set (t # ts)))"
    using b(5) b1(5) by (simp add: Min_insert_min insert_commute)
  moreover have "area_bottom m b = Max (insert (area_bottom m a) (TileY_generic m ` set (t # ts)))"
    using b(6) b1(6) by (simp add: Max_insert_max insert_commute)
  ultimately show ?case using b(2) by blast
qed

lemma IsInsideBS_iff:
  assumes "0 \<le> x" "x < 2 ^ 16" "0 \<le> base" "base < 2 ^ 16" "0 \<le> sz" "sz \<le> 2 ^ 16"
  shows "IsInsideBS x base sz = (base \<le> x \<and> x < base + sz)"
proof (cases "base \<le> x")
  case True
  then have "(x - base) mod 2 ^ 64 = x - base" using assms by simp
  then show ?thesis using True by (simp add: IsInsideBS_def) linarith
next
  case False
  have "(x - base) mod 2 ^ 64 = (x - base + 2 ^ 64) mod 2 ^ 64" by simp
  also have "\<dots> = x - base + 2 ^ 64"
    using False assms by (intro mod_pos_pos_trivial) simp_all
  finally show ?thesis using False assms by (simp add: IsInsideBS_def)
qed

lemma Contains_area_on:
  assumes m: "map_ok m" and c: "area_on m c" and u: "tile_on m u"
  shows "Contains c u =
           Inr (area_left m c \<le> TileX_generic m u \<and> TileX_generic m u \<le> area_right m c \<and>
                area_top m c \<le> TileY_generic m u \<and> TileY_generic m u \<le> area_bottom m c)"
proof -
  have ct: "tile_on m (area_tile c)" using c by (simp add: area_on_def)
  note cc = tile_on_coords[OF m ct] and uc = tile_on_coords[OF m u]
  have bounds: "size_x m < 2 ^ 16" "size_y m < 2 ^ 16" using m by (simp_all add: map_ok_def)
  have w: "1 \<le> area_w c" "TileX_generic m (area_tile c) + area_w c \<le> size_x m"
          "1 \<le> area_h c" "TileY_generic m (area_tile c) + area_h c \<le> size_y m"
    using c by (simp_all add: area_on_def)
  have x: "IsInsideBS (TileX_generic m u) (TileX_generic m (area_tile c)) (area_w c) =
        (TileX_generic m (area_tile c) \<le> TileX_generic m u \<and>
         TileX_generic m u < TileX_generic m (area_tile c) + area_w c)"
    using cc uc bounds w by (intro IsInsideBS_iff) linarith+
  have y: "IsInsideBS (TileY_generic m u) (TileY_generic m (area_tile c)) (area_h c) =
        (TileY_generic m (area_tile c) \<le> TileY_generic m u \<and>
         TileY_generic m u < TileY_generic m (area_tile c) + area_h c)"
    using cc uc bounds w by (intro IsInsideBS_iff) linarith+
  have same: "IsSameMap (area_tile c) u" "MapOf u = Some m"
    using ct u by (simp_all add: IsSameMap_def tile_on_def)
  show ?thesis
    using w same
    by (simp add: Contains_def x y area_left_def area_right_def area_top_def area_bottom_def)
qed


lemma Add_all_bounds:
  assumes m: "map_ok m" and ts: "\<forall>t\<in>set ts. tile_on m t" and ne: "ts \<noteq> []"
    and a: "\<not> IsValidTileIndex (area_tile a) \<or> area_on m a"
  shows "\<exists>b. Add_all a ts = Inr b \<and> area_on m b \<and>
     area_left m b = Min (columns_to_cover m a ts) \<and>
     area_right m b = Max (columns_to_cover m a ts) \<and>
     area_top m b = Min (rows_to_cover m a ts) \<and>
     area_bottom m b = Max (rows_to_cover m a ts)"
proof (cases "IsValidTileIndex (area_tile a)")
  case False
  obtain t0 rest where l: "ts = t0 # rest" using ne by (cases ts) auto
  have t0: "tile_on m t0" and rest: "\<forall>t\<in>set rest. tile_on m t" using ts l by simp_all
  let ?s = "\<lparr>area_tile = t0, area_w = 1, area_h = 1\<rparr>"
  have s: "area_on m ?s" by (rule area_on_single[OF m t0])
  from Add_all_area_on[OF m rest s] obtain b where
    b: "Add_all ?s rest = Inr b" "area_on m b"
      "area_left m b = Min (insert (area_left m ?s) (TileX_generic m ` set rest))"
      "area_right m b = Max (insert (area_right m ?s) (TileX_generic m ` set rest))"
      "area_top m b = Min (insert (area_top m ?s) (TileY_generic m ` set rest))"
      "area_bottom m b = Max (insert (area_bottom m ?s) (TileY_generic m ` set rest))"
    by blast
  have "Add_all a ts = Inr b" using b(1) l Add_invalid[OF False] by simp
  moreover have "columns_to_cover m a ts = insert (TileX_generic m t0) (TileX_generic m ` set rest)"
    "rows_to_cover m a ts = insert (TileY_generic m t0) (TileY_generic m ` set rest)"
    using False l by (simp_all add: columns_to_cover_def rows_to_cover_def)
  ultimately show ?thesis using b
    by (simp add: area_left_def area_right_def area_top_def area_bottom_def)
next
  case True
  with a have ao: "area_on m a" by simp
  from Add_all_area_on[OF m ts ao] obtain b where
    b: "Add_all a ts = Inr b" "area_on m b"
      "area_left m b = Min (insert (area_left m a) (TileX_generic m ` set ts))"
      "area_right m b = Max (insert (area_right m a) (TileX_generic m ` set ts))"
      "area_top m b = Min (insert (area_top m a) (TileY_generic m ` set ts))"
      "area_bottom m b = Max (insert (area_bottom m a) (TileY_generic m ` set ts))"
    by blast
  have le: "area_left m a \<le> area_right m a" "area_top m a \<le> area_bottom m a"
    using ao by (simp_all add: area_on_def area_left_def area_right_def area_top_def area_bottom_def)
  have mn: "Min (insert l (insert r S)) = Min (insert l S)" if "l \<le> r" "finite S" for l r :: int and S
    using that by (cases "S = {}") (simp_all add: min.absorb1 min.absorb2 min.assoc)
  have mx: "Max (insert l (insert r S)) = Max (insert r S)" if "l \<le> r" "finite S" for l r :: int and S
    using that by (cases "S = {}") (simp_all add: max.absorb1 max.absorb2 max.assoc max.left_commute)
  have c: "columns_to_cover m a ts = insert (area_left m a) (insert (area_right m a) (TileX_generic m ` set ts))"
    "rows_to_cover m a ts = insert (area_top m a) (insert (area_bottom m a) (TileY_generic m ` set ts))"
    using True by (auto simp add: columns_to_cover_def rows_to_cover_def)
  have e1: "Min (columns_to_cover m a ts) = Min (insert (area_left m a) (TileX_generic m ` set ts))"
    unfolding c by (rule mn[OF le(1)]) simp
  have e2: "Max (columns_to_cover m a ts) = Max (insert (area_right m a) (TileX_generic m ` set ts))"
    unfolding c by (rule mx[OF le(1)]) simp
  have e3: "Min (rows_to_cover m a ts) = Min (insert (area_top m a) (TileY_generic m ` set ts))"
    unfolding c by (rule mn[OF le(2)]) simp
  have e4: "Max (rows_to_cover m a ts) = Max (insert (area_bottom m a) (TileY_generic m ` set ts))"
    unfolding c by (rule mx[OF le(2)]) simp
  show ?thesis using b unfolding e1 e2 e3 e4 by blast
qed


text \<open>
  Claim C7. \<^verbatim>\<open>Add\<close> on an area whose tile is invalid gives the 1 x 1 area at the added
  tile. For a map \<open>m\<close>, a non-empty list of tiles of \<open>m\<close> and an area that is the empty one
  or lies on \<open>m\<close>, adding the tiles one after the other gives an area on \<open>m\<close> whose first
  column and row are the least, and whose width and height are greatest minus least
  plus one, of the columns and rows to cover. It contains every added tile and every
  tile of the area before, and every area on \<open>m\<close> that does so contains it.
\<close>

theorem Add_all_bounding_box:
  assumes m: "map_ok m" and ts: "\<forall>t\<in>set ts. tile_on m t" and ne: "ts \<noteq> []"
    and a: "(\<not> IsValidTileIndex (area_tile a) \<and> area_w a = 0) \<or> area_on m a"
  shows "(\<forall>t. \<not> IsValidTileIndex (area_tile a) \<longrightarrow>
            Add a t = Inr \<lparr>area_tile = t, area_w = 1, area_h = 1\<rparr>) \<and>
    (\<exists>b. Add_all a ts = Inr b \<and> area_on m b \<and>
       area_left m b = Min (columns_to_cover m a ts) \<and>
       area_w b = Max (columns_to_cover m a ts) - Min (columns_to_cover m a ts) + 1 \<and>
       area_top m b = Min (rows_to_cover m a ts) \<and>
       area_h b = Max (rows_to_cover m a ts) - Min (rows_to_cover m a ts) + 1 \<and>
       (\<forall>t\<in>set ts. Contains b t = Inr True) \<and>
       (\<forall>u. tile_on m u \<and> Contains a u = Inr True \<longrightarrow> Contains b u = Inr True) \<and>
       (\<forall>c. area_on m c \<and> (\<forall>t\<in>set ts. Contains c t = Inr True) \<and>
             (\<forall>u. tile_on m u \<and> Contains a u = Inr True \<longrightarrow> Contains c u = Inr True) \<longrightarrow>
             (\<forall>u. tile_on m u \<and> Contains b u = Inr True \<longrightarrow> Contains c u = Inr True)))"
proof -
  have a': "\<not> IsValidTileIndex (area_tile a) \<or> area_on m a" using a by blast
  from Add_all_bounds[OF m ts ne a'] obtain b where
    b: "Add_all a ts = Inr b" "area_on m b"
      "area_left m b = Min (columns_to_cover m a ts)"
      "area_right m b = Max (columns_to_cover m a ts)"
      "area_top m b = Min (rows_to_cover m a ts)"
      "area_bottom m b = Max (rows_to_cover m a ts)"
    by blast
  let ?X = "columns_to_cover m a ts" and ?Y = "rows_to_cover m a ts"
  have fin: "finite ?X" "finite ?Y" by (simp_all add: columns_to_cover_def rows_to_cover_def)
  have tsX: "TileX_generic m t \<in> ?X" "TileY_generic m t \<in> ?Y" if "t \<in> set ts" for t
    using that by (simp_all add: columns_to_cover_def rows_to_cover_def)
  have wb: "area_w b = Max ?X - Min ?X + 1" "area_h b = Max ?Y - Min ?Y + 1"
    using b(3-6) by (simp_all add: area_left_def area_right_def area_top_def area_bottom_def)
  have in_b: "Contains b u = Inr (Min ?X \<le> TileX_generic m u \<and> TileX_generic m u \<le> Max ?X \<and>
                Min ?Y \<le> TileY_generic m u \<and> TileY_generic m u \<le> Max ?Y)"
    if "tile_on m u" for u
    using Contains_area_on[OF m b(2) that] b(3-6) by simp
  have c1: "\<forall>t\<in>set ts. Contains b t = Inr True"
  proof
    fix t assume t: "t \<in> set ts"
    then have "tile_on m t" using ts by blast
    then show "Contains b t = Inr True"
      using in_b tsX[OF t] fin by (simp add: Min_le Max_ge)
  qed
  have a_cov: "area_left m a \<in> ?X \<and> area_right m a \<in> ?X \<and> area_top m a \<in> ?Y \<and> area_bottom m a \<in> ?Y"
    if "area_on m a"
    using area_on_valid[OF that] by (simp add: columns_to_cover_def rows_to_cover_def)
  have a_empty: "Contains a u = Inr False" if "\<not> area_on m a" for u
    using a that by (simp add: Contains_def)
  have c2: "\<forall>u. tile_on m u \<and> Contains a u = Inr True \<longrightarrow> Contains b u = Inr True"
  proof (intro allI impI)
    fix u assume u: "tile_on m u \<and> Contains a u = Inr True"
    then have ao: "area_on m a" using a_empty by (cases "area_on m a") auto
    have "area_left m a \<le> TileX_generic m u \<and> TileX_generic m u \<le> area_right m a \<and>
          area_top m a \<le> TileY_generic m u \<and> TileY_generic m u \<le> area_bottom m a"
      using Contains_area_on[OF m ao conjunct1[OF u]] conjunct2[OF u] by simp
    moreover have "Min ?X \<le> area_left m a" "area_right m a \<le> Max ?X"
      "Min ?Y \<le> area_top m a" "area_bottom m a \<le> Max ?Y"
      using a_cov[OF ao] fin by (simp_all add: Min_le Max_ge)
    ultimately show "Contains b u = Inr True" using in_b[OF conjunct1[OF u]] by simp
  qed
  have c3: "\<forall>u. tile_on m u \<and> Contains b u = Inr True \<longrightarrow> Contains c u = Inr True"
    if c: "area_on m c" and cts: "\<forall>t\<in>set ts. Contains c t = Inr True"
      and ca: "\<forall>u. tile_on m u \<and> Contains a u = Inr True \<longrightarrow> Contains c u = Inr True" for c
  proof -
    have in_c: "Contains c u = Inr (area_left m c \<le> TileX_generic m u \<and> TileX_generic m u \<le> area_right m c \<and>
                area_top m c \<le> TileY_generic m u \<and> TileY_generic m u \<le> area_bottom m c)"
      if "tile_on m u" for u
      using Contains_area_on[OF m c that] .
    have t_in: "area_left m c \<le> TileX_generic m t \<and> TileX_generic m t \<le> area_right m c \<and>
                area_top m c \<le> TileY_generic m t \<and> TileY_generic m t \<le> area_bottom m c"
      if "t \<in> set ts" for t
    proof -
      have "tile_on m t" "Contains c t = Inr True" using cts ts that by blast+
      then show ?thesis using in_c[of t] by simp
    qed
    have a_in: "area_left m c \<le> area_left m a \<and> area_right m a \<le> area_right m c \<and>
                area_top m c \<le> area_top m a \<and> area_bottom m a \<le> area_bottom m c"
      if ao: "area_on m a"
    proof -
      have at: "tile_on m (area_tile a)" using ao by (simp add: area_on_def)
      note ac = tile_on_coords[OF m at]
      have w: "1 \<le> area_w a" "TileX_generic m (area_tile a) + area_w a \<le> size_x m"
          "1 \<le> area_h a" "TileY_generic m (area_tile a) + area_h a \<le> size_y m"
        using ao by (simp_all add: area_on_def)
      have r: "0 \<le> area_right m a" "area_right m a < size_x m"
              "0 \<le> area_bottom m a" "area_bottom m a < size_y m"
        using ac w by (simp_all add: area_right_def area_bottom_def)
      note far = TileXY_generic_coords[OF m r]
      have "Contains a (area_tile a) = Inr True"
        using Contains_area_on[OF m ao at] w
        by (simp add: area_left_def area_right_def area_top_def area_bottom_def)
      then have "Contains c (area_tile a) = Inr True" using ca at by blast
      then have 1: "area_left m c \<le> area_left m a \<and> area_top m c \<le> area_top m a"
        using in_c[OF at] by (simp add: area_left_def area_top_def)
      have "Contains a (TileXY_generic (area_right m a) (area_bottom m a) m) = Inr True"
        using Contains_area_on[OF m ao, of "TileXY_generic (area_right m a) (area_bottom m a) m"] far w
        by (simp add: area_left_def area_right_def area_top_def area_bottom_def)
      then have "Contains c (TileXY_generic (area_right m a) (area_bottom m a) m) = Inr True"
        using ca far by blast
      then have 2: "area_right m a \<le> area_right m c \<and> area_bottom m a \<le> area_bottom m c"
        using in_c[of "TileXY_generic (area_right m a) (area_bottom m a) m"] far by simp
      have 3: "area_left m a \<le> area_right m a" "area_top m a \<le> area_bottom m a"
        using w by (simp_all add: area_left_def area_right_def area_top_def area_bottom_def)
      show ?thesis using 1 2 3 by simp
    qed
    have X_in: "area_left m c \<le> x \<and> x \<le> area_right m c" if "x \<in> ?X" for x
    proof (cases "x \<in> TileX_generic m ` set ts")
      case True
      then show ?thesis using t_in by auto
    next
      case False
      with that have v: "IsValidTileIndex (area_tile a)" "x = area_left m a \<or> x = area_right m a"
        by (auto simp add: columns_to_cover_def split: if_splits)
      then have ao: "area_on m a" using a by blast
      have "area_left m a \<le> area_right m a"
        using ao by (simp add: area_on_def area_left_def area_right_def)
      with a_in[OF ao] v(2) show ?thesis by auto
    qed
    have Y_in: "area_top m c \<le> y \<and> y \<le> area_bottom m c" if "y \<in> ?Y" for y
    proof (cases "y \<in> TileY_generic m ` set ts")
      case True
      then show ?thesis using t_in by auto
    next
      case False
      with that have v: "IsValidTileIndex (area_tile a)" "y = area_top m a \<or> y = area_bottom m a"
        by (auto simp add: rows_to_cover_def split: if_splits)
      then have ao: "area_on m a" using a by blast
      have "area_top m a \<le> area_bottom m a"
        using ao by (simp add: area_on_def area_top_def area_bottom_def)
      with a_in[OF ao] v(2) show ?thesis by auto
    qed
    have neX: "?X \<noteq> {}" "?Y \<noteq> {}" using ne by (simp_all add: columns_to_cover_def rows_to_cover_def)
    have "area_left m c \<le> Min ?X" "Max ?X \<le> area_right m c"
         "area_top m c \<le> Min ?Y" "Max ?Y \<le> area_bottom m c"
      using X_in Y_in fin neX by (simp_all)
    then show ?thesis using in_b in_c by fastforce
  qed
  have first: "\<forall>t. \<not> IsValidTileIndex (area_tile a) \<longrightarrow>
            Add a t = Inr \<lparr>area_tile = t, area_w = 1, area_h = 1\<rparr>"
    using Add_invalid by blast
  show ?thesis
    using first b(1,2,3,5) wb c1 c2 c3 by blast
qed


theorem Add_all_bounding_box_witness:
  "map_ok clipboard_8 \<and>
   tile_on clipboard_8 (TileXY_generic 2 5 clipboard_8) \<and>
   tile_on clipboard_8 (TileXY_generic 6 1 clipboard_8) \<and>
   [TileXY_generic 2 5 clipboard_8, TileXY_generic 6 1 clipboard_8] \<noteq> [] \<and>
   \<not> IsValidTileIndex \<lparr>index = INVALID_TILE_INDEX, map_ptr = Some clipboard_8\<rparr> \<and>
   area_on clipboard_8 \<lparr>area_tile = TileXY_generic 3 3 clipboard_8, area_w = 1, area_h = 1\<rparr> \<and>
   Add_all \<lparr>area_tile = \<lparr>index = INVALID_TILE_INDEX, map_ptr = Some clipboard_8\<rparr>,
            area_w = 0, area_h = 0\<rparr>
     [TileXY_generic 2 5 clipboard_8, TileXY_generic 6 1 clipboard_8] =
     Inr \<lparr>area_tile = TileXY_generic 2 1 clipboard_8, area_w = 5, area_h = 5\<rparr> \<and>
   (\<exists>b. Add_all \<lparr>area_tile = \<lparr>index = INVALID_TILE_INDEX, map_ptr = Some clipboard_8\<rparr>,
                area_w = 0, area_h = 0\<rparr>
          [TileXY_generic 2 5 clipboard_8, TileXY_generic 6 1 clipboard_8] = Inr b \<and>
        area_on clipboard_8 b \<and>
        Contains b (TileXY_generic 2 5 clipboard_8) = Inr True \<and>
        Contains b (TileXY_generic 6 1 clipboard_8) = Inr True) \<and>
   (\<exists>b. Add_all \<lparr>area_tile = TileXY_generic 3 3 clipboard_8, area_w = 1, area_h = 1\<rparr>
          [TileXY_generic 2 5 clipboard_8, TileXY_generic 6 1 clipboard_8] = Inr b \<and>
        area_on clipboard_8 b \<and>
        Contains b (TileXY_generic 2 5 clipboard_8) = Inr True)"
proof -
  let ?ts = "[TileXY_generic 2 5 clipboard_8, TileXY_generic 6 1 clipboard_8]"
  let ?e = "\<lparr>area_tile = \<lparr>index = INVALID_TILE_INDEX, map_ptr = Some clipboard_8\<rparr>,
            area_w = 0, area_h = 0\<rparr>"
  let ?a = "\<lparr>area_tile = TileXY_generic 3 3 clipboard_8, area_w = 1, area_h = 1\<rparr>"
  have m: "map_ok clipboard_8" by (simp add: map_ok_def clipboard_8_def)
  have ts: "\<forall>t\<in>set ?ts. tile_on clipboard_8 t"
    by (simp add: tile_on_def TileXY_generic_def MapOf_def IndexOf_def to_uint_def clipboard_8_def)
  have ne: "?ts \<noteq> []" by simp
  have inv: "\<not> IsValidTileIndex \<lparr>index = INVALID_TILE_INDEX, map_ptr = Some clipboard_8\<rparr>"
    by (simp add: IsValidTileIndex_def MapOf_def IndexOf_def INVALID_TILE_INDEX_def clipboard_8_def)
  have e: "(\<not> IsValidTileIndex (area_tile ?e) \<and> area_w ?e = 0) \<or> area_on clipboard_8 ?e"
    using inv by simp
  have ao: "area_on clipboard_8 ?a"
    by (simp add: area_on_def tile_on_def TileXY_generic_def TileX_generic_def TileY_generic_def
        MapOf_def IndexOf_def to_uint_def clipboard_8_def)
  then have a: "(\<not> IsValidTileIndex (area_tile ?a) \<and> area_w ?a = 0) \<or> area_on clipboard_8 ?a"
    by blast
  have v: "Add_all ?e ?ts =
     Inr \<lparr>area_tile = TileXY_generic 2 1 clipboard_8, area_w = 5, area_h = 5\<rparr>"
    by (simp add: Add_def IsValidTileIndex_def IsSameMap_def MapOf_def IndexOf_def
        TileXY_generic_def TileX_generic_def TileY_generic_def to_uint_def to_uint16_def
        INVALID_TILE_INDEX_def clipboard_8_def Let_def)
  note t1 = Add_all_bounding_box[OF m ts ne e, THEN conjunct2]
  note t2 = Add_all_bounding_box[OF m ts ne a, THEN conjunct2]
  have r1: "\<exists>b. Add_all ?e ?ts = Inr b \<and> area_on clipboard_8 b \<and>
        Contains b (TileXY_generic 2 5 clipboard_8) = Inr True \<and>
        Contains b (TileXY_generic 6 1 clipboard_8) = Inr True"
    using t1 by auto
  have r2: "\<exists>b. Add_all ?a ?ts = Inr b \<and> area_on clipboard_8 b \<and>
        Contains b (TileXY_generic 2 5 clipboard_8) = Inr True"
    using t2 by auto
  have ts': "tile_on clipboard_8 (TileXY_generic 2 5 clipboard_8)"
    "tile_on clipboard_8 (TileXY_generic 6 1 clipboard_8)"
    using ts by simp_all
  show ?thesis using m ts' ne inv ao v r1 r2 by blast
qed


text \<open>
  On the main map itself \<^verbatim>\<open>Expand\<close> clamps as intended: the new first column and row are
  \<open>max (x - rad) 0\<close> and \<open>max (y - rad) 0\<close>, the new far bounds the minimum of the old
  far bound plus \<open>rad\<close> and the map's width or height.
\<close>

lemma Expand_on_main_map:
  assumes m: "map_ok m" and a: "area_on m a" and rad: "0 \<le> rad" "rad < 2 ^ 30"
  shows "\<exists>b. Expand m a rad = Inr b \<and>
     area_left m b = max (area_left m a - rad) 0 \<and>
     area_top m b = max (area_top m a - rad) 0 \<and>
     area_left m b + area_w b = min (area_left m a + area_w a + rad) (size_x m) \<and>
     area_top m b + area_h b = min (area_top m a + area_h a + rad) (size_y m)"
proof -
  have at: "tile_on m (area_tile a)" using a by (simp add: area_on_def)
  note ac = tile_on_coords[OF m at]
  have bounds: "size_x m < 2 ^ 16" "size_y m < 2 ^ 16" using m by (simp_all add: map_ok_def)
  let ?x = "TileX_generic m (area_tile a)" and ?y = "TileY_generic m (area_tile a)"
  have w: "1 \<le> area_w a" "?x + area_w a \<le> size_x m" "1 \<le> area_h a" "?y + area_h a \<le> size_y m"
    using a by (simp_all add: area_on_def)
  have ix: "to_int32 ?x = ?x" "to_int32 ?y = ?y" "to_int32 (size_x m) = size_x m"
    "to_int32 (size_y m) = size_y m"
    using ac bounds by (simp_all add: to_int32_id)
  let ?sx = "max (?x - rad) 0" and ?sy = "max (?y - rad) 0"
  let ?ex = "min (?x + area_w a + rad) (size_x m)" and ?ey = "min (?y + area_h a + rad) (size_y m)"
  have r1: "0 \<le> ?sx" "?sx < size_x m" "0 \<le> ?sy" "?sy < size_y m"
    using ac rad by auto
  have r2: "?sx < ?ex" "?ex \<le> size_x m" "?sy < ?ey" "?ey \<le> size_y m"
    using ac w rad by auto
  have u: "to_uint ?sx = ?sx" "to_uint ?sy = ?sy"
    using r1 bounds by (simp_all add: to_uint_id)
  have w16: "to_uint16 (?ex - ?sx) = ?ex - ?sx" "to_uint16 (?ey - ?sy) = ?ey - ?sy"
  proof -
    have "0 \<le> ?ex - ?sx" "?ex - ?sx < 2 ^ 16" "0 \<le> ?ey - ?sy" "?ey - ?sy < 2 ^ 16"
      using r1 r2 bounds by linarith+
    then show "to_uint16 (?ex - ?sx) = ?ex - ?sx" "to_uint16 (?ey - ?sy) = ?ey - ?sy"
      by (simp_all add: to_uint16_id)
  qed
  note xy = TileXY_generic_coords[OF m r1]
  have "Expand m a rad =
      Inr \<lparr>area_tile = TileXY_generic ?sx ?sy m, area_w = ?ex - ?sx, area_h = ?ey - ?sy\<rparr>"
    using at by (simp add: Expand_def tile_on_def Let_def ix u w16)
  then show ?thesis
    using xy by (simp add: area_left_def area_top_def)
qed

text \<open>
  Claim C8. The claim is that \<^verbatim>\<open>Expand\<close> clamps to the dimensions of the grid the area
  lies on. For an area on another map than the main one it clamps to the main map's
  dimensions instead: the 1 x 1 area at (6, 6) of an 8 x 8 clipboard map, expanded by 3
  while the main map is 64 x 64, becomes 7 x 7 at (3, 3) and reaches column and row 9,
  beyond the clipboard map. Clamped to its own map the far bound would be
  \<open>min (6 + 1 + 3) 8\<close>, a width of 5, which is what \<^verbatim>\<open>ClampToMap\<close> then makes of it.
\<close>

theorem Expand_clamps_to_main_map_size:
  "Expand main_64 \<lparr>area_tile = TileXY_generic 6 6 clipboard_8, area_w = 1, area_h = 1\<rparr> 3 =
     Inr \<lparr>area_tile = TileXY_generic 3 3 clipboard_8, area_w = 7, area_h = 7\<rparr> \<and>
   min (6 + 1 + 3) (size_x clipboard_8) - max (6 - 3) 0 = (5::int) \<and>
   ClampToMap \<lparr>area_tile = TileXY_generic 3 3 clipboard_8, area_w = 7, area_h = 7\<rparr> =
     Inr \<lparr>area_tile = TileXY_generic 3 3 clipboard_8, area_w = 5, area_h = 5\<rparr>"
  by (simp add: Expand_def ClampToMap_def MapOf_def IndexOf_def IsValidTileIndex_def
      TileXY_generic_def TileX_generic_def TileY_generic_def to_uint_def to_int32_def
      to_uint16_def main_64_def clipboard_8_def Let_def)

section \<open>Properties of the transformations between tile areas\<close>

lemma TransformedNorthCornerDiffC_values:
  assumes "IsValidDirTransform dtr"
  shows "TransformedNorthCornerDiffC dtr =
     Inr \<lparr>diff_x = (if dtr = DTR_ROTATE_180 \<or> dtr = DTR_ROTATE_90_L \<or> dtr = DTR_REFLECT_W_E \<or>
                        dtr = DTR_REFLECT_NW_SE then 1 else 0),
          diff_y = (if dtr = DTR_ROTATE_90_R \<or> dtr = DTR_ROTATE_180 \<or> dtr = DTR_REFLECT_NE_SW \<or>
                        dtr = DTR_REFLECT_W_E then 1 else 0)\<rparr>"
  using IsValidDirTransform_cases[OF assms] assms
  by (elim disjE)
     (simp_all add: TransformedNorthCornerDiffC_def GB_def DIFF_X_def DIFF_Y_def
        DTR_IDENTITY_def DTR_ROTATE_90_R_def DTR_ROTATE_180_def DTR_ROTATE_90_L_def
        DTR_REFLECT_NE_SW_def DTR_REFLECT_W_E_def DTR_REFLECT_NW_SE_def DTR_REFLECT_N_S_def)

lemma sint_add_bit:
  fixes a b :: "16 word"
  assumes "b = 0 \<or> b = 1" and "sint a < 2 ^ 15 - 1"
  shows "sint (a + b) = sint a + sint b"
proof -
  have lo: "- (2 ^ 15) \<le> sint a" using sint_ge[of a] by simp
  have b: "sint b = 0 \<or> sint b = 1" using assms(1) by auto
  have "sint (a + b) = signed_take_bit 15 (sint a + sint b)"
    by (simp add: sint_word_ariths)
  moreover have "signed_take_bit 15 (sint a + sint b) = sint a + sint b"
    using lo assms(2) b by (intro signed_take_bit_int_eq_self) auto
  ultimately show ?thesis by simp
qed


text \<open>
  Claim C5. For a valid direction transformation and two areas that pass the extent
  assertion, \<^verbatim>\<open>TransformationBetweenTileAreaCorners\<close> returns what
  \<^verbatim>\<open>TransformationBetweenTileAreas\<close> returns, with the same direction transformation
  and with \<^verbatim>\<open>TransformedNorthCornerDiffC(dtr)\<close> added to the offset, component by
  component. The components are \<^verbatim>\<open>int16\<close>: as signed numbers the new offset is larger
  by exactly the corner offset (0 or 1) whenever the old one is below the largest
  \<^verbatim>\<open>int16\<close>.
\<close>

theorem TransformationBetweenTileAreaCorners_offset:
  assumes v: "IsValidDirTransform dtr" and pre: "extents_match src dst dtr"
    and mf: "MapOf (area_tile src) = Some mf" and mt: "MapOf (area_tile dst) = Some mt"
  shows "\<exists>ret ret' extra.
     TransformationBetweenTileAreas tbt src dst dtr = Inr ret \<and>
     TransformedNorthCornerDiffC dtr = Inr extra \<and>
     TransformationBetweenTileAreaCorners tbt src dst dtr = Inr ret' \<and>
     tt_dtr ret' = tt_dtr ret \<and>
     diff_x (tt_offset ret') = diff_x (tt_offset ret) + diff_x extra \<and>
     diff_y (tt_offset ret') = diff_y (tt_offset ret) + diff_y extra \<and>
     (if sint (diff_x (tt_offset ret)) < 2 ^ 15 - 1
      then sint (diff_x (tt_offset ret')) = sint (diff_x (tt_offset ret)) + sint (diff_x extra)
      else True) \<and>
     (if sint (diff_y (tt_offset ret)) < 2 ^ 15 - 1
      then sint (diff_y (tt_offset ret')) = sint (diff_y (tt_offset ret)) + sint (diff_y extra)
      else True)"
proof -
  note tn = TransformedNorthCornerDiffC_values[OF v]
  obtain extra where extra: "TransformedNorthCornerDiffC dtr = Inr extra"
    and bits: "diff_x extra = 0 \<or> diff_x extra = 1" "diff_y extra = 0 \<or> diff_y extra = 1"
    using tn by auto
  obtain ret where ret: "TransformationBetweenTileAreas tbt src dst dtr = Inr ret"
    using pre mf mt extra by (simp add: TransformationBetweenTileAreas_def)
  let ?ret' = "ret\<lparr>tt_offset := \<lparr>diff_x = diff_x (tt_offset ret) + diff_x extra,
                                   diff_y = diff_y (tt_offset ret) + diff_y extra\<rparr>\<rparr>"
  have c: "TransformationBetweenTileAreaCorners tbt src dst dtr = Inr ?ret'"
    using ret extra by (simp add: TransformationBetweenTileAreaCorners_def)
  have sx: "sint (diff_x (tt_offset ret) + diff_x extra) =
            sint (diff_x (tt_offset ret)) + sint (diff_x extra)"
    if "sint (diff_x (tt_offset ret)) < 2 ^ 15 - 1"
    using bits(1) that by (rule sint_add_bit)
  have sy: "sint (diff_y (tt_offset ret) + diff_y extra) =
            sint (diff_y (tt_offset ret)) + sint (diff_y extra)"
    if "sint (diff_y (tt_offset ret)) < 2 ^ 15 - 1"
    using bits(2) that by (rule sint_add_bit)
  show ?thesis
    apply (rule exI[of _ ret], rule exI[of _ ?ret'], rule exI[of _ extra])
    using ret extra c sx sy by simp
qed

theorem TransformationBetweenTileAreaCorners_offset_witness:
  "IsValidDirTransform DTR_ROTATE_90_R \<and>
   extents_match \<lparr>area_tile = TileXY_generic 0 0 main_64, area_w = 4, area_h = 3\<rparr>
     \<lparr>area_tile = TileXY_generic 2 1 clipboard_8, area_w = 3, area_h = 4\<rparr> DTR_ROTATE_90_R \<and>
   MapOf (TileXY_generic 0 0 main_64) = Some main_64 \<and>
   MapOf (TileXY_generic 2 1 clipboard_8) = Some clipboard_8 \<and>
   TransformationBetweenTileAreas offset_to_destination
     \<lparr>area_tile = TileXY_generic 0 0 main_64, area_w = 4, area_h = 3\<rparr>
     \<lparr>area_tile = TileXY_generic 2 1 clipboard_8, area_w = 3, area_h = 4\<rparr> DTR_ROTATE_90_R =
     Inr \<lparr>tt_dtr = DTR_ROTATE_90_R, tt_offset = \<lparr>diff_x = 2, diff_y = 4\<rparr>\<rparr> \<and>
   (\<exists>ret'. TransformationBetweenTileAreaCorners offset_to_destination
     \<lparr>area_tile = TileXY_generic 0 0 main_64, area_w = 4, area_h = 3\<rparr>
     \<lparr>area_tile = TileXY_generic 2 1 clipboard_8, area_w = 3, area_h = 4\<rparr> DTR_ROTATE_90_R =
     Inr ret' \<and> tt_dtr ret' = DTR_ROTATE_90_R \<and>
     sint (diff_x (tt_offset ret')) = 2 \<and> sint (diff_y (tt_offset ret')) = 5)"
proof -
  let ?src = "\<lparr>area_tile = TileXY_generic 0 0 main_64, area_w = 4, area_h = 3\<rparr>"
  let ?dst = "\<lparr>area_tile = TileXY_generic 2 1 clipboard_8, area_w = 3, area_h = 4\<rparr>"
  have v: "IsValidDirTransform DTR_ROTATE_90_R"
    by (simp add: IsValidDirTransform_def IsInsideMM_def DTR_BEGIN_def DTR_END_def
        DTR_ROTATE_90_R_def)
  have pre: "extents_match ?src ?dst DTR_ROTATE_90_R"
    by (simp add: extents_match_def TransformAxis_def AXIS_X_def DTR_ROTATE_90_R_def)
  have mf: "MapOf (area_tile ?src) = Some main_64" by (simp add: MapOf_def TileXY_generic_def)
  have mt: "MapOf (area_tile ?dst) = Some clipboard_8" by (simp add: MapOf_def TileXY_generic_def)
  have tn: "TransformedNorthCornerDiffC DTR_ROTATE_90_R = Inr \<lparr>diff_x = 0, diff_y = 1\<rparr>"
    using TransformedNorthCornerDiffC_values[OF v]
    by (simp add: DTR_ROTATE_90_R_def DTR_ROTATE_180_def DTR_ROTATE_90_L_def
        DTR_REFLECT_NE_SW_def DTR_REFLECT_W_E_def DTR_REFLECT_NW_SE_def)
  have a: "TransformationBetweenTileAreas offset_to_destination ?src ?dst DTR_ROTATE_90_R =
     Inr \<lparr>tt_dtr = DTR_ROTATE_90_R, tt_offset = \<lparr>diff_x = 2, diff_y = 4\<rparr>\<rparr>"
    using pre
    by (simp add: TransformationBetweenTileAreas_def tn offset_to_destination_def MapOf_def
        IndexOf_def TileXY_generic_def TileX_generic_def TileY_generic_def to_uint_def
        to_int32_def main_64_def clipboard_8_def)
  from TransformationBetweenTileAreaCorners_offset[OF v pre mf mt, of offset_to_destination]
  obtain ret ret' extra where
    r: "TransformationBetweenTileAreas offset_to_destination ?src ?dst DTR_ROTATE_90_R = Inr ret"
      "TransformedNorthCornerDiffC DTR_ROTATE_90_R = Inr extra"
      "TransformationBetweenTileAreaCorners offset_to_destination ?src ?dst DTR_ROTATE_90_R = Inr ret'"
      "tt_dtr ret' = tt_dtr ret"
      "(if sint (diff_x (tt_offset ret)) < 2 ^ 15 - 1
        then sint (diff_x (tt_offset ret')) = sint (diff_x (tt_offset ret)) + sint (diff_x extra)
        else True)"
      "(if sint (diff_y (tt_offset ret)) < 2 ^ 15 - 1
        then sint (diff_y (tt_offset ret')) = sint (diff_y (tt_offset ret)) + sint (diff_y extra)
        else True)"
    by blast
  have "ret = \<lparr>tt_dtr = DTR_ROTATE_90_R, tt_offset = \<lparr>diff_x = 2, diff_y = 4\<rparr>\<rparr>"
    using a r(1) by simp
  moreover have "extra = \<lparr>diff_x = 0, diff_y = 1\<rparr>" using tn r(2) by simp
  ultimately have "tt_dtr ret' = DTR_ROTATE_90_R \<and>
     sint (diff_x (tt_offset ret')) = 2 \<and> sint (diff_y (tt_offset ret')) = 5"
    using r(4,5,6) by simp
  then show ?thesis using v pre mf mt a r(3) by auto
qed

section \<open>Properties of diagonal tile areas\<close>

text \<open>
  The narrowing conversions are the identity on values in range, and the constructor from
  two corners never leaves an extent at zero.
\<close>

lemma trunc_div_even: "even v \<Longrightarrow> trunc_div v 2 = v div 2"
  by (auto simp add: trunc_div_def sgn_if elim!: evenE)

lemma to_int16_range: "- (2 ^ 15) \<le> to_int16 v \<and> to_int16 v < 2 ^ 15"
  by (simp add: to_int16_def)

lemma to_int16_abs: "\<bar>to_int16 v\<bar> \<le> 32768"
  using to_int16_range[of v] by (simp add: abs_le_iff)

lemma to_int16_succ_nonzero:
  assumes "- (2 ^ 15) \<le> v" "v < 2 ^ 15" "0 < v"
  shows "to_int16 (v + 1) \<noteq> 0"
proof (cases "v = 32767")
  case True
  then show ?thesis by (simp add: to_int16_def)
next
  case False
  then have "(v + 1 + 2 ^ 15) mod 2 ^ 16 = v + 1 + 2 ^ 15"
    using assms by (intro mod_pos_pos_trivial) simp_all
  then show ?thesis using assms by (simp add: to_int16_def)
qed

lemma to_int16_pred_nonzero:
  assumes "- (2 ^ 15) \<le> v" "v < 2 ^ 15" "v \<le> 0"
  shows "to_int16 (v - 1) \<noteq> 0"
proof (cases "v = - 32768")
  case True
  then show ?thesis by (simp add: to_int16_def)
next
  case False
  then have "(v - 1 + 2 ^ 15) mod 2 ^ 16 = v - 1 + 2 ^ 15"
    using assms by (intro mod_pos_pos_trivial) simp_all
  then show ?thesis using assms by (simp add: to_int16_def)
qed

lemma invalid_index_not_valid:
  "map_ok m \<Longrightarrow> MapOf t = Some m \<Longrightarrow> \<not> IsValidTileIndex (t\<lparr>index := INVALID_TILE_INDEX\<rparr>)"
  by (simp add: IsValidTileIndex_def MapOf_def IndexOf_def INVALID_TILE_INDEX_def map_ok_def)

lemma DiagonalTileArea_of_corners_area_ok:
  assumes "map_ok m" "tile_on m start" "DiagonalTileArea_of_corners start end' = Inr ta"
  shows "area_ok m ta"
proof -
  have ms: "MapOf start = Some m" using assms(2) by (simp add: tile_on_def)
  let ?a0 = "to_int16 (to_uint (TileY_generic m end' + TileX_generic m end' -
                                          TileY_generic m start - TileX_generic m start))"
  let ?b0 = "to_int16 (to_uint (TileY_generic m end' - TileX_generic m end' -
                                          TileY_generic m start + TileX_generic m start))"
  have ta: "ta = \<lparr>diag_tile = start,
                      diag_a = (if ?a0 > 0 then to_int16 (?a0 + 1) else to_int16 (?a0 - 1)),
                      diag_b = (if ?b0 > 0 then to_int16 (?b0 + 1) else to_int16 (?b0 - 1))\<rparr>"
    using assms(3) ms by (simp add: DiagonalTileArea_of_corners_def Let_def split: if_splits)
  have a: "diag_a ta \<noteq> 0"
    unfolding ta using to_int16_succ_nonzero[of ?a0] to_int16_pred_nonzero[of ?a0] to_int16_range[of "to_uint (TileY_generic m end' + TileX_generic m end' -
                                          TileY_generic m start - TileX_generic m start)"]
    by simp
  have b: "diag_b ta \<noteq> 0"
    unfolding ta using to_int16_succ_nonzero[of ?b0] to_int16_pred_nonzero[of ?b0] to_int16_range[of "to_uint (TileY_generic m end' - TileX_generic m end' -
                                          TileY_generic m start + TileX_generic m start)"]
    by simp
  have ra: "\<bar>diag_a ta\<bar> \<le> 2 ^ 15" unfolding ta by (simp add: to_int16_abs)
  have rb: "\<bar>diag_b ta\<bar> \<le> 2 ^ 15" unfolding ta by (simp add: to_int16_abs)
  have "diag_tile ta = start" unfolding ta by simp
  with a b ra rb assms(1,2) show ?thesis by (simp add: area_ok_def)
qed

lemma abs_mod_2: "\<bar>v\<bar> mod 2 = (v::int) mod 2"
  by presburger

lemma abs_mod_2_odd: "(\<bar>v + 2\<bar> mod 2 \<noteq> 0) = odd (v::int)" "(\<bar>v - 2\<bar> mod 2 \<noteq> 0) = odd (v::int)"
  by presburger+

lemma DiagonalTileIterator_advance_fields:
  "it_tile (DiagonalTileIterator_advance it) = it_tile it"
  "base_x (DiagonalTileIterator_advance it) = base_x it"
  "base_y (DiagonalTileIterator_advance it) = base_y it"
  "a_max (DiagonalTileIterator_advance it) = a_max it"
  "b_max (DiagonalTileIterator_advance it) = b_max it"
  by (simp_all add: DiagonalTileIterator_advance_def Let_def)

lemma DiagonalTileIterator_advance_special:
  assumes "a_max it = 1 \<or> a_max it = -1"
  shows "a_cur (DiagonalTileIterator_advance it) = 0"
    and "b_cur (DiagonalTileIterator_advance it) =
           (if b_max it > 0 then min (b_cur it + 2) (b_max it) else max (b_cur it - 2) (b_max it))"
  using assms by (simp_all add: DiagonalTileIterator_advance_def)

lemma DiagonalTileIterator_advance_same_line:
  assumes "\<not> (a_max it = 1 \<or> a_max it = -1)"
    "\<not> (if a_max it > 0 then a_cur it + 2 \<ge> a_max it else a_cur it - 2 \<le> a_max it)"
  shows "a_cur (DiagonalTileIterator_advance it) = (if a_max it > 0 then a_cur it + 2 else a_cur it - 2)"
    and "b_cur (DiagonalTileIterator_advance it) = b_cur it"
proof -
  show "a_cur (DiagonalTileIterator_advance it) = (if a_max it > 0 then a_cur it + 2 else a_cur it - 2)"
  proof (cases "0 < a_max it")
    case True
    then show ?thesis using assms by (simp add: DiagonalTileIterator_advance_def Let_def)
  next
    case False
    then show ?thesis using assms by (simp add: DiagonalTileIterator_advance_def Let_def)
  qed
  show "b_cur (DiagonalTileIterator_advance it) = b_cur it"
  proof (cases "0 < a_max it")
    case True
    then show ?thesis using assms by (simp add: DiagonalTileIterator_advance_def Let_def)
  next
    case False
    then show ?thesis using assms by (simp add: DiagonalTileIterator_advance_def Let_def)
  qed
qed

lemma DiagonalTileIterator_advance_new_line:
  assumes "\<not> (a_max it = 1 \<or> a_max it = -1)"
    "if a_max it > 0 then a_cur it + 2 \<ge> a_max it else a_cur it - 2 \<le> a_max it"
  shows "a_cur (DiagonalTileIterator_advance it) =
           (if odd (a_cur it) then 0 else if a_max it > 0 then 1 else -1)"
    and "b_cur (DiagonalTileIterator_advance it) = (if b_max it > 0 then b_cur it + 1 else b_cur it - 1)"
proof -
  have u: "DiagonalTileIterator_advance it =
      it\<lparr>a_cur := (if odd (a_cur it) then 0 else if a_max it > 0 then 1 else -1),
         b_cur := (if b_max it > 0 then b_cur it + 1 else b_cur it - 1)\<rparr>"
  proof (cases "0 < a_max it")
    case True
    then have "a_max it \<le> a_cur it + 2" using assms(2) by simp
    then show ?thesis
      unfolding DiagonalTileIterator_advance_def Let_def abs_mod_2_odd
      using assms(1) True by (auto simp add: even_iff_mod_2_eq_zero)
  next
    case False
    then have "a_cur it - 2 \<le> a_max it" using assms(2) by simp
    then show ?thesis
      unfolding DiagonalTileIterator_advance_def Let_def abs_mod_2_odd
      using assms(1) False by (auto simp add: even_iff_mod_2_eq_zero)
  qed
  show "a_cur (DiagonalTileIterator_advance it) =
           (if odd (a_cur it) then 0 else if a_max it > 0 then 1 else -1)"
    by (simp add: u)
  show "b_cur (DiagonalTileIterator_advance it) = (if b_max it > 0 then b_cur it + 1 else b_cur it - 1)"
    by (simp add: u)
qed

lemma DiagonalTileIterator_advance_within:
  assumes "a_max it \<noteq> 0" "b_max it \<noteq> 0"
    "rotated_within (a_cur it) (a_max it)" "a_cur it \<noteq> a_max it"
    "rotated_within (b_cur it) (b_max it)" "b_cur it \<noteq> b_max it"
    "even (a_cur it + b_cur it)"
  shows "rotated_within (a_cur (DiagonalTileIterator_advance it)) (a_max it)"
    and "a_cur (DiagonalTileIterator_advance it) \<noteq> a_max it"
    and "rotated_within (b_cur (DiagonalTileIterator_advance it)) (b_max it)"
    and "b_cur (DiagonalTileIterator_advance it) \<noteq> b_max it \<Longrightarrow>
         even (a_cur (DiagonalTileIterator_advance it) + b_cur (DiagonalTileIterator_advance it))"
    and "(DiagonalTileIterator_advance it, it) \<in>
           measures [\<lambda>it. nat \<bar>b_max it - b_cur it\<bar>, \<lambda>it. nat \<bar>a_max it - a_cur it\<bar>]"
proof -
  define a b A B a' b' where "a = a_cur it" and "b = b_cur it" and "A = a_max it" and "B = b_max it"
    and "a' = a_cur (DiagonalTileIterator_advance it)" and "b' = b_cur (DiagonalTileIterator_advance it)"
  have h: "A \<noteq> 0" "B \<noteq> 0" "if A > 0 then 0 \<le> a \<and> a < A else A < a \<and> a \<le> 0"
    "if B > 0 then 0 \<le> b \<and> b < B else B < b \<and> b \<le> 0" "even (a + b)"
    using assms unfolding a_def b_def A_def B_def rotated_within_def by (simp_all split: if_splits)
  consider
    (special) "A = 1 \<or> A = -1" "a' = 0" "b' = (if B > 0 then min (b + 2) B else max (b - 2) B)"
  | (same) "\<not> (A = 1 \<or> A = -1)" "\<not> (if A > 0 then a + 2 \<ge> A else a - 2 \<le> A)"
      "a' = (if A > 0 then a + 2 else a - 2)" "b' = b"
  | (new) "\<not> (A = 1 \<or> A = -1)" "if A > 0 then a + 2 \<ge> A else a - 2 \<le> A"
      "a' = (if odd a then 0 else if A > 0 then 1 else -1)" "b' = (if B > 0 then b + 1 else b - 1)"
    using DiagonalTileIterator_advance_special[of it] DiagonalTileIterator_advance_same_line[of it]
      DiagonalTileIterator_advance_new_line[of it]
    unfolding a_def b_def A_def B_def a'_def b'_def by blast
  then have r: "(if A > 0 then 0 \<le> a' \<and> a' < A else A < a' \<and> a' \<le> 0) \<and>
      (if B > 0 then 0 \<le> b' \<and> b' \<le> B else B \<le> b' \<and> b' \<le> 0) \<and>
      (b' \<noteq> B \<longrightarrow> even (a' + b')) \<and>
      (\<bar>B - b'\<bar> < \<bar>B - b\<bar> \<or> (\<bar>B - b'\<bar> = \<bar>B - b\<bar> \<and> \<bar>A - a'\<bar> < \<bar>A - a\<bar>))"
  proof cases
    case special
    have "a = 0" using h(1,3) special(1) by (auto split: if_splits)
    then have "even b" using h(5) by simp
    then show ?thesis using h special by (auto split: if_splits)
  next
    case same
    then show ?thesis using h by (auto split: if_splits)
  next
    case new
    have p: "odd a \<Longrightarrow> odd b" "even a \<Longrightarrow> even b" using h(5) by simp_all
    show ?thesis
    proof (cases "odd a")
      case True
      then show ?thesis using h new p by (auto split: if_splits)
    next
      case False
      then show ?thesis using h new p by (auto split: if_splits)
    qed
  qed
  show "rotated_within (a_cur (DiagonalTileIterator_advance it)) (a_max it)"
    using r unfolding a_def b_def A_def B_def a'_def b'_def rotated_within_def
    by (simp split: if_splits)
  show "a_cur (DiagonalTileIterator_advance it) \<noteq> a_max it"
    using r unfolding a_def b_def A_def B_def a'_def b'_def by (auto split: if_splits)
  show "rotated_within (b_cur (DiagonalTileIterator_advance it)) (b_max it)"
    using r unfolding a_def b_def A_def B_def a'_def b'_def rotated_within_def
    by (simp split: if_splits)
  show "b_cur (DiagonalTileIterator_advance it) \<noteq> b_max it \<Longrightarrow>
         even (a_cur (DiagonalTileIterator_advance it) + b_cur (DiagonalTileIterator_advance it))"
    using r unfolding a_def b_def A_def B_def a'_def b'_def by blast
  show "(DiagonalTileIterator_advance it, it) \<in>
           measures [\<lambda>it. nat \<bar>b_max it - b_cur it\<bar>, \<lambda>it. nat \<bar>a_max it - a_cur it\<bar>]"
    using r unfolding a_def b_def A_def B_def a'_def b'_def
    by (simp add: DiagonalTileIterator_advance_fields) linarith
qed

lemma trunc_div_2_bound: "\<bar>v\<bar> \<le> 2 * k \<Longrightarrow> \<bar>trunc_div v 2\<bar> \<le> k"
  by (auto simp add: trunc_div_def sgn_if abs_le_iff)

lemma rotated_within_abs: "rotated_within c c_max \<Longrightarrow> \<bar>c\<bar> \<le> \<bar>c_max\<bar>"
  by (auto simp add: rotated_within_def split: if_splits)

lemma to_uint_small:
  assumes "- (2 ^ 31) \<le> v" "v < 2 ^ 31" "to_uint v < 2 ^ 16"
  shows "0 \<le> v \<and> to_uint v = v"
proof (cases "0 \<le> v")
  case True
  then show ?thesis using assms by (simp add: to_uint_id)
next
  case False
  have "v mod 2 ^ 32 = (v + 2 ^ 32) mod 2 ^ 32" by simp
  also have "\<dots> = v + 2 ^ 32" using assms False by (intro mod_pos_pos_trivial) simp_all
  finally show ?thesis using assms by (simp add: to_uint_def)
qed

lemma to_int32_to_uint:
  assumes "- (2 ^ 31) \<le> v" "v < 2 ^ 31"
  shows "to_int32 (to_uint v) = v"
proof -
  have "(v mod 2 ^ 32 + 2 ^ 31) mod 2 ^ 32 = (v + 2 ^ 31) mod 2 ^ 32"
    by (simp add: mod_add_left_eq)
  also have "\<dots> = v + 2 ^ 31" using assms by (intro mod_pos_pos_trivial) simp_all
  finally show ?thesis by (simp add: to_int32_def to_uint_def)
qed

lemma DiagonalTileIterator_step_invariant:
  assumes ok: "area_ok m ta" and io: "iterator_of m ta it"
    and ne: "b_cur it \<noteq> b_max it" and ev: "even (a_cur it + b_cur it)"
  shows "iterator_of m ta (DiagonalTileIterator_step m it)"
    and "b_cur (DiagonalTileIterator_step m it) \<noteq> b_max (DiagonalTileIterator_step m it) \<Longrightarrow>
         even (a_cur (DiagonalTileIterator_step m it) + b_cur (DiagonalTileIterator_step m it))"
    and "IsValidTileIndex (it_tile (DiagonalTileIterator_step m it)) \<Longrightarrow>
         b_cur (DiagonalTileIterator_step m it) \<noteq> b_max (DiagonalTileIterator_step m it) \<Longrightarrow>
         iterator_at_tile m (DiagonalTileIterator_step m it)"
    and "(DiagonalTileIterator_step m it, it) \<in>
           measures [\<lambda>it. nat \<bar>b_max it - b_cur it\<bar>, \<lambda>it. nat \<bar>a_max it - a_cur it\<bar>]"
proof -
  define it1 where "it1 = DiagonalTileIterator_advance it"
  define vx where "vx = base_x it1 + trunc_div (a_cur it1 - b_cur it1) 2"
  define vy where "vy = base_y it1 + trunc_div (b_cur it1 + a_cur it1) 2"
  define it' where "it' = DiagonalTileIterator_step m it"
  have mok: "map_ok m" and ton: "tile_on m (diag_tile ta)"
    and nz: "a_max it \<noteq> 0" "b_max it \<noteq> 0"
    and ab: "\<bar>a_max it\<bar> \<le> 2 ^ 15" "\<bar>b_max it\<bar> \<le> 2 ^ 15"
    using ok io by (simp_all add: area_ok_def iterator_of_def)
  have w: "rotated_within (a_cur it) (a_max it)" "a_cur it \<noteq> a_max it"
    "rotated_within (b_cur it) (b_max it)"
    using io unfolding iterator_of_def by blast+
  note adv = DiagonalTileIterator_advance_within[OF nz w ne ev, folded it1_def]
  have f1: "it_tile it1 = it_tile it" "base_x it1 = base_x it" "base_y it1 = base_y it"
    "a_max it1 = a_max it" "b_max it1 = b_max it"
    by (simp_all add: it1_def DiagonalTileIterator_advance_fields)
  have step: "it' = (if to_uint vx \<ge> size_x m \<or> to_uint vy \<ge> size_y m
         then it1\<lparr>it_tile := (it_tile it1)\<lparr>index := INVALID_TILE_INDEX\<rparr>\<rparr>
         else it1\<lparr>it_tile := TileXY_generic (to_uint vx) (to_uint vy) m\<rparr>)"
    by (simp add: it'_def DiagonalTileIterator_step_def Let_def it1_def vx_def vy_def)
  have f': "base_x it' = base_x it" "base_y it' = base_y it" "a_max it' = a_max it"
    "b_max it' = b_max it" "a_cur it' = a_cur it1" "b_cur it' = b_cur it1"
    by (simp_all add: step f1)
  have mp: "MapOf (it_tile it) = Some m" using io by (simp add: iterator_of_def)
  have mp': "MapOf (it_tile it') = Some m"
    using mp by (simp add: step f1 MapOf_def TileXY_generic_def)
  show io': "iterator_of m ta (DiagonalTileIterator_step m it)"
    using io adv(1,2,3) mp' unfolding it'_def[symmetric] by (simp add: iterator_of_def f')
  show "b_cur (DiagonalTileIterator_step m it) \<noteq> b_max (DiagonalTileIterator_step m it) \<Longrightarrow>
         even (a_cur (DiagonalTileIterator_step m it) + b_cur (DiagonalTileIterator_step m it))"
    using adv(4) unfolding it'_def[symmetric] by (simp add: f')
  show "(DiagonalTileIterator_step m it, it) \<in>
           measures [\<lambda>it. nat \<bar>b_max it - b_cur it\<bar>, \<lambda>it. nat \<bar>a_max it - a_cur it\<bar>]"
    using adv(5) unfolding it'_def[symmetric] by (simp add: f' f1)
  show "iterator_at_tile m (DiagonalTileIterator_step m it)"
    if v: "IsValidTileIndex (it_tile (DiagonalTileIterator_step m it))"
      and ne': "b_cur (DiagonalTileIterator_step m it) \<noteq> b_max (DiagonalTileIterator_step m it)"
  proof -
    have inv: "\<not> IsValidTileIndex ((it_tile it1)\<lparr>index := INVALID_TILE_INDEX\<rparr>)"
      using invalid_index_not_valid[OF mok] mp by (simp add: f1)
    have lt: "to_uint vx < size_x m" "to_uint vy < size_y m"
      using v inv unfolding it'_def[symmetric] by (auto simp add: step split: if_splits)
    have tl: "it_tile it' = TileXY_generic (to_uint vx) (to_uint vy) m"
      using lt by (simp add: step)
    have bc: "0 \<le> base_x it" "base_x it < 2 ^ 16" "0 \<le> base_y it" "base_y it < 2 ^ 16"
      using tile_on_coords[OF mok ton] io mok by (simp_all add: iterator_of_def map_ok_def)
    have a1: "\<bar>a_cur it1\<bar> \<le> 2 ^ 15" "\<bar>b_cur it1\<bar> \<le> 2 ^ 15"
      using rotated_within_abs[OF adv(1)] rotated_within_abs[OF adv(3)] ab by simp_all
    have t1: "\<bar>trunc_div (a_cur it1 - b_cur it1) 2\<bar> \<le> 2 ^ 15"
      using a1 by (intro trunc_div_2_bound) simp
    have t2: "\<bar>trunc_div (b_cur it1 + a_cur it1) 2\<bar> \<le> 2 ^ 15"
      using a1 by (intro trunc_div_2_bound) simp
    have sz: "size_x m < 2 ^ 16" "size_y m < 2 ^ 16" using mok by (simp_all add: map_ok_def)
    have ux: "0 \<le> vx \<and> to_uint vx = vx"
      using t1 bc lt(1) sz by (intro to_uint_small) (simp_all add: vx_def f1)
    have uy: "0 \<le> vy \<and> to_uint vy = vy"
      using t2 bc lt(2) sz by (intro to_uint_small) (simp_all add: vy_def f1)
    have c: "tile_on m (it_tile it') \<and> TileX_generic m (it_tile it') = vx \<and>
             TileY_generic m (it_tile it') = vy"
      unfolding tl using TileXY_generic_coords[OF mok, of "to_uint vx" "to_uint vy"] ux uy lt
      by simp
    have ev': "even (a_cur it1 + b_cur it1)"
      using adv(4) ne' unfolding it'_def[symmetric] by (simp add: f')
    then have ev2: "even (a_cur it1 - b_cur it1)" "even (b_cur it1 + a_cur it1)" by simp_all
    show ?thesis
      unfolding it'_def[symmetric] iterator_at_tile_def
      using c ev' ne' trunc_div_even[OF ev2(1)] trunc_div_even[OF ev2(2)]
      unfolding it'_def[symmetric] by (simp add: f' vx_def vy_def f1)
  qed
qed


lemma DiagonalTileIterator_loop_returns:
  assumes ok: "area_ok m ta"
  shows "iterator_of m ta it \<Longrightarrow> b_cur it \<noteq> b_max it \<Longrightarrow> even (a_cur it + b_cur it) \<Longrightarrow>
         \<exists>it'. DiagonalTileIterator_loop m it = Some it' \<and> iterator_of m ta it' \<and>
               (b_cur it' = b_max it' \<or> iterator_at_tile m it')"
proof (induction it rule: wf_induct_rule[OF wf_measures[of
        "[\<lambda>it. nat \<bar>b_max it - b_cur it\<bar>, \<lambda>it. nat \<bar>a_max it - a_cur it\<bar>]"],
        case_names less])
  case (less it)
  let ?s = "DiagonalTileIterator_step m it"
  note st = DiagonalTileIterator_step_invariant[OF ok less.prems]
  show ?case
  proof (cases "\<not> IsValidTileIndex (it_tile ?s) \<and> b_max ?s \<noteq> b_cur ?s")
    case True
    have "DiagonalTileIterator_loop m it = DiagonalTileIterator_loop m ?s"
      using True by (subst DiagonalTileIterator_loop.simps) (simp add: Let_def)
    moreover have "b_cur ?s \<noteq> b_max ?s" using True by auto
    ultimately show ?thesis using less.IH[OF st(4) st(1) _ st(2)] by simp
  next
    case False
    have r: "DiagonalTileIterator_loop m it = Some ?s"
      using False by (subst DiagonalTileIterator_loop.simps) (auto simp add: Let_def)
    have "b_cur ?s = b_max ?s \<or> iterator_at_tile m ?s" using False st(3) by auto
    then show ?thesis using st(1) r by simp
  qed
qed

lemma DiagonalTileIterator_takes_invariant:
  assumes ok: "area_ok m ta" and tk: "DiagonalTileIterator_takes ta it"
  shows "iterator_of m ta it \<and> (IsValidTileIndex (it_tile it) \<longrightarrow> iterator_at_tile m it)"
  using tk ok
proof induction
  case (constructed ta it)
  have mp: "MapOf (diag_tile ta) = Some m" and ton: "tile_on m (diag_tile ta)"
    and nz: "diag_a ta \<noteq> 0" "diag_b ta \<noteq> 0"
    using constructed(2) by (simp_all add: area_ok_def tile_on_def)
  have it: "it = \<lparr>it_tile = diag_tile ta,
               base_x = TileX_generic m (diag_tile ta),
               base_y = TileY_generic m (diag_tile ta),
               a_cur = 0, b_cur = 0, a_max = diag_a ta, b_max = diag_b ta\<rparr>"
    using constructed(1) mp by (simp add: DiagonalTileIterator_of_area_def)
  show ?case using mp ton nz
    by (simp add: it iterator_of_def iterator_at_tile_def rotated_within_def)
next
  case (advanced ta it it')
  have io: "iterator_of m ta it" and at: "iterator_at_tile m it"
    using advanced.IH[OF advanced.prems] advanced.hyps(2) by simp_all
  have mok: "map_ok m" using advanced.prems by (simp add: area_ok_def)
  have mp: "MapOf (it_tile it) = Some m" using io by (simp add: iterator_of_def)
  from DiagonalTileIterator_loop_returns[OF advanced.prems io] at
  obtain it2 where l: "DiagonalTileIterator_loop m it = Some it2" and io2: "iterator_of m ta it2"
    and post: "b_cur it2 = b_max it2 \<or> iterator_at_tile m it2"
    by (auto simp add: iterator_at_tile_def)
  have it': "it' = (if b_max it2 = b_cur it2
                             then it2\<lparr>it_tile := (it_tile it2)\<lparr>index := INVALID_TILE_INDEX\<rparr>\<rparr>
                             else it2)"
    using advanced.hyps(3) advanced.hyps(2) mp l by (simp add: DiagonalTileIterator_next_def)
  show ?case
  proof (cases "b_max it2 = b_cur it2")
    case True
    have mp2: "MapOf (it_tile it2) = Some m" using io2 by (simp add: iterator_of_def)
    have it'T: "it' = it2\<lparr>it_tile := (it_tile it2)\<lparr>index := INVALID_TILE_INDEX\<rparr>\<rparr>"
      using True it' by simp
    have "\<not> IsValidTileIndex (it_tile it')"
      using invalid_index_not_valid[OF mok mp2] by (simp add: it'T)
    moreover have "iterator_of m ta it'"
      using io2 unfolding iterator_of_def it'T by (auto simp add: MapOf_def)
    ultimately show ?thesis by simp
  next
    case False
    then show ?thesis using io2 post by (simp add: it')
  qed
qed

lemma iterator_at_tile_Contains:
  assumes ok: "area_ok m ta" and io: "iterator_of m ta it" and at: "iterator_at_tile m it"
  shows "Contains_diagonal ta (it_tile it) = Inr True"
proof -
  have mok: "map_ok m" and ton: "tile_on m (diag_tile ta)"
    and nz: "diag_a ta \<noteq> 0" "diag_b ta \<noteq> 0"
    using ok by (simp_all add: area_ok_def)
  have tt: "tile_on m (it_tile it)" using at by (simp add: iterator_at_tile_def)
  define X Y bx "by" where "X = TileX_generic m (it_tile it)" and "Y = TileY_generic m (it_tile it)"
    and "bx = TileX_generic m (diag_tile ta)" and "by = TileY_generic m (diag_tile ta)"
  define a b where "a = a_cur it" and "b = b_cur it"
  have sz: "size_x m < 2 ^ 16" "size_y m < 2 ^ 16" using mok by (simp_all add: map_ok_def)
  have c1: "0 \<le> X" "X < 2 ^ 16" "0 \<le> Y" "Y < 2 ^ 16"
    using tile_on_coords[OF mok tt] sz by (simp_all add: X_def Y_def)
  have c2: "0 \<le> bx" "bx < 2 ^ 16" "0 \<le> by" "by < 2 ^ 16"
    using tile_on_coords[OF mok ton] sz by (simp_all add: bx_def by_def)
  have ev: "even (a + b)" and xy: "X = bx + (a - b) div 2" "Y = by + (b + a) div 2"
    and bne: "b \<noteq> diag_b ta"
    using at io by (simp_all add: iterator_at_tile_def iterator_of_def X_def Y_def bx_def by_def a_def b_def)
  have s: "Y + X = by + bx + a" "Y - X = by - bx + b"
    using ev unfolding xy by presburger+
  have w: "if diag_a ta > 0 then 0 \<le> a \<and> a < diag_a ta else diag_a ta < a \<and> a \<le> 0"
    "if diag_b ta > 0 then 0 \<le> b \<and> b < diag_b ta else diag_b ta < b \<and> b \<le> 0"
    using io bne by (auto simp add: iterator_of_def rotated_within_def a_def b_def split: if_splits)
  have i: "to_int32 (to_uint (Y + X)) = Y + X" "to_int32 (to_uint (Y - X)) = Y - X"
    "to_int32 (to_uint (by + bx)) = by + bx" "to_int32 (to_uint (by - bx)) = by - bx"
    using c1 c2 by (simp_all add: to_int32_to_uint)
  have sm: "IsSameMap (diag_tile ta) (it_tile it)"
    using ton tt by (simp add: IsSameMap_def tile_on_def)
  have mp: "MapOf (it_tile it) = Some m" using tt by (simp add: tile_on_def)
  have "Contains_diagonal ta (it_tile it) =
      (let a = Y + X; b = Y - X; start_a = by + bx; start_b = by - bx;
                  end_a = start_a + diag_a ta;
                  end_b = start_b + diag_b ta;
                  start_a' = (if start_a > end_a then end_a + 1 else start_a);
                  end_a' = (if start_a > end_a then start_a + 1 else end_a);
                  start_b' = (if start_b > end_b then end_b + 1 else start_b);
                  end_b' = (if start_b > end_b then start_b + 1 else end_b)
              in Inr (a \<ge> start_a' \<and> a < end_a' \<and> b \<ge> start_b' \<and> b < end_b'))"
    unfolding Contains_diagonal_def using sm mp
    by (simp add: i[unfolded X_def Y_def bx_def by_def] X_def Y_def bx_def by_def)
  also have "\<dots> = Inr True"
    unfolding s Let_def using w nz by (auto split: if_splits)
  finally show ?thesis .
qed

text \<open>
  Claim C6. For a diagonal tile area constructed from two valid corner tiles of one map,
  every value the iterator over the area takes whose tile is valid (from its construction
  on, each obtained by \<^verbatim>\<open>operator++\<close> from a value with a valid tile) has a tile that the
  area contains, with an x coordinate below the width and a y coordinate below the height
  of the map; and \<^verbatim>\<open>operator++\<close> on it returns: the loop that skips the cells outside the
  map ends.
\<close>

theorem DiagonalTileIterator_yields_contained_tiles:
  assumes "map_ok m" and "tile_on m start"
    and "DiagonalTileArea_of_corners start end' = Inr ta"
    and "DiagonalTileIterator_takes ta it"
    and "IsValidTileIndex (it_tile it)"
  shows "Contains_diagonal ta (it_tile it) = Inr True \<and>
         TileX_generic m (it_tile it) < size_x m \<and>
         TileY_generic m (it_tile it) < size_y m \<and>
         (\<exists>it'. DiagonalTileIterator_next it = Some (Inr it'))"
proof -
  have ok: "area_ok m ta" using assms(1,2,3) by (rule DiagonalTileArea_of_corners_area_ok)
  have io: "iterator_of m ta it" and at: "iterator_at_tile m it"
    using DiagonalTileIterator_takes_invariant[OF ok assms(4)] assms(5) by simp_all
  have tt: "tile_on m (it_tile it)" using at by (simp add: iterator_at_tile_def)
  have mp: "MapOf (it_tile it) = Some m" using tt by (simp add: tile_on_def)
  from DiagonalTileIterator_loop_returns[OF ok io] at
  obtain it2 where "DiagonalTileIterator_loop m it = Some it2"
    by (auto simp add: iterator_at_tile_def)
  then have "\<exists>it'. DiagonalTileIterator_next it = Some (Inr it')"
    using assms(5) mp by (simp add: DiagonalTileIterator_next_def)
  then show ?thesis
    using iterator_at_tile_Contains[OF ok io at] tile_on_coords[OF assms(1) tt] by simp
qed

text \<open>
  On the 8 x 8 map, for the area between (0, 0) and (0, 2): the iterator goes through
  (0, 0), (1, 1) and (0, 1), skips the cell at x = -1 and comes to (0, 2).
\<close>

theorem DiagonalTileIterator_yields_contained_tiles_witness:
  "map_ok clipboard_8 \<and> tile_on clipboard_8 (TileXY_generic 0 0 clipboard_8) \<and>
   DiagonalTileArea_of_corners (TileXY_generic 0 0 clipboard_8) (TileXY_generic 0 2 clipboard_8) =
     Inr corner_area \<and>
   DiagonalTileIterator_takes corner_area (corner_iterator 0 2 2 2) \<and>
   IsValidTileIndex (it_tile (corner_iterator 0 2 2 2)) \<and>
   Contains_diagonal corner_area (it_tile (corner_iterator 0 2 2 2)) = Inr True \<and>
   TileX_generic clipboard_8 (it_tile (corner_iterator 0 2 2 2)) < size_x clipboard_8 \<and>
   TileY_generic clipboard_8 (it_tile (corner_iterator 0 2 2 2)) < size_y clipboard_8 \<and>
   (\<exists>it'. DiagonalTileIterator_next (corner_iterator 0 2 2 2) = Some (Inr it'))"
proof -
  have m: "map_ok clipboard_8" by code_simp
  have s: "tile_on clipboard_8 (TileXY_generic 0 0 clipboard_8)" by code_simp
  have a: "DiagonalTileArea_of_corners (TileXY_generic 0 0 clipboard_8)
             (TileXY_generic 0 2 clipboard_8) = Inr corner_area"
    by code_simp
  have c: "DiagonalTileIterator_of_area corner_area = Inr (corner_iterator 0 0 0 0)"
    by code_simp
  have v0: "IsValidTileIndex (it_tile (corner_iterator 0 0 0 0))" by code_simp
  have n0: "DiagonalTileIterator_next (corner_iterator 0 0 0 0) =
              Some (Inr (corner_iterator 1 1 2 0))"
    by code_simp
  have v1: "IsValidTileIndex (it_tile (corner_iterator 1 1 2 0))" by code_simp
  have n1: "DiagonalTileIterator_next (corner_iterator 1 1 2 0) =
              Some (Inr (corner_iterator 0 1 1 1))"
    by code_simp
  have v2: "IsValidTileIndex (it_tile (corner_iterator 0 1 1 1))" by code_simp
  have n2: "DiagonalTileIterator_next (corner_iterator 0 1 1 1) =
              Some (Inr (corner_iterator 0 2 2 2))"
    by code_simp
  have v3: "IsValidTileIndex (it_tile (corner_iterator 0 2 2 2))" by code_simp
  have t0: "DiagonalTileIterator_takes corner_area (corner_iterator 0 0 0 0)"
    using c by (rule constructed)
  have t1: "DiagonalTileIterator_takes corner_area (corner_iterator 1 1 2 0)"
    using t0 v0 n0 by (rule advanced)
  have t2: "DiagonalTileIterator_takes corner_area (corner_iterator 0 1 1 1)"
    using t1 v1 n1 by (rule advanced)
  have t3: "DiagonalTileIterator_takes corner_area (corner_iterator 0 2 2 2)"
    using t2 v2 n2 by (rule advanced)
  note r = DiagonalTileIterator_yields_contained_tiles[OF m s a t3 v3]
  show ?thesis using m s a t3 v3 r by blast
qed

end
